theory Spec2Isabelle
  imports Complex_Main "HOL-Library.Sublist"
begin

section \<open>Python strings\<close>

text \<open>
  A Python \<open>str\<close> is a sequence of Unicode code points, and \<open>len\<close> counts code
  points. A string is therefore a list of code points (natural numbers); the
  literals of the source are written \<open>ascii ''...''\<close> when they are ASCII and as
  explicit code-point lists otherwise.
\<close>

type_synonym ustr = "nat list"

definition ascii :: "string \<Rightarrow> ustr" where
  "ascii s = map of_char s"

text \<open>
  \<open>str.isspace\<close> on one code point. \<open>str.strip()\<close> without argument and the
  class \<open>\s\<close> of \<open>re\<close> on a \<open>str\<close> pattern use the same set (CPython 3.11):
  U+0009..U+000D, U+001C..U+0020, U+0085, U+00A0, U+1680, U+2000..U+200A, U+2028,
  U+2029, U+202F, U+205F, U+3000.
\<close>

definition isspace :: "nat \<Rightarrow> bool" where
  "isspace c \<longleftrightarrow>
     (9 \<le> c \<and> c \<le> 13) \<or> (28 \<le> c \<and> c \<le> 32) \<or> c = 133 \<or> c = 160 \<or> c = 5760 \<or>
     (8192 \<le> c \<and> c \<le> 8202) \<or> c = 8232 \<or> c = 8233 \<or> c = 8239 \<or> c = 8287 \<or>
     c = 12288"

definition lstrip :: "ustr \<Rightarrow> ustr" where
  "lstrip s = dropWhile isspace s"

definition rstrip :: "ustr \<Rightarrow> ustr" where
  "rstrip s = rev (dropWhile isspace (rev s))"

definition strip :: "ustr \<Rightarrow> ustr" where
  "strip s = rstrip (lstrip s)"

text \<open>\<open>s.replace(a, b)\<close> for a one-character \<open>a\<close> and a replacement string \<open>b\<close>.\<close>

definition replace_char :: "nat \<Rightarrow> ustr \<Rightarrow> ustr \<Rightarrow> ustr" where
  "replace_char a b s = concat (map (\<lambda>c. if c = a then b else [c]) s)"

text \<open>
  \<open>re.sub(r"\s+", " ", s)\<close>: every maximal run of whitespace becomes one space.
  The flag says that the previous character was whitespace, that is, that the
  run has already been replaced.
\<close>

fun collapse_run :: "bool \<Rightarrow> ustr \<Rightarrow> ustr" where
  "collapse_run b [] = []"
| "collapse_run b (c # cs) =
     (if isspace c then (if b then collapse_run True cs else 32 # collapse_run True cs)
      else c # collapse_run False cs)"

definition collapse_ws :: "ustr \<Rightarrow> ustr" where
  "collapse_ws s = collapse_run False s"

text \<open>
  The slice \<open>s[:n]\<close> for a Python \<open>int\<close> \<open>n\<close>: a negative \<open>n\<close> counts from the
  end of the string.
\<close>

definition slice_to :: "int \<Rightarrow> 'a list \<Rightarrow> 'a list" where
  "slice_to n s = (if 0 \<le> n then take (nat n) s else take (length s - nat (- n)) s)"

section \<open>safe_name\<close>

text \<open>
  \<^verbatim>\<open>
  def safe_name(name: str, max_len: int = 80) -> str:
      name = name.strip().replace("\u00a0", " ")
      name = re.sub(r"[\\/]", "-", name)
      name = re.sub(r'[:*?"<>|]', "", name)
      name = re.sub(r"\s+", " ", name)
      if not name:
          name = "untitled"
      if len(name) > max_len:
          name = name[:max_len].rstrip()
      return name
  \<close>
\<close>

definition slash_chars :: "nat set" where
  "slash_chars = {92, 47}"

text \<open>The class \<open>[:*?"<>|]\<close>.\<close>

definition forbidden_chars :: "nat set" where
  "forbidden_chars = {58, 42, 63, 34, 60, 62, 124}"

definition sanitize :: "ustr \<Rightarrow> ustr" where
  "sanitize name =
     (let n1 = replace_char 160 [32] (strip name);
          n2 = map (\<lambda>c. if c \<in> slash_chars then 45 else c) n1;
          n3 = filter (\<lambda>c. c \<notin> forbidden_chars) n2
      in collapse_ws n3)"

definition safe_name :: "ustr \<Rightarrow> int \<Rightarrow> ustr" where
  "safe_name name max_len =
     (let n4 = sanitize name;
          n5 = (if n4 = [] then ascii ''untitled'' else n4)
      in if int (length n5) > max_len then rstrip (slice_to max_len n5) else n5)"

text \<open>The call \<open>safe_name(name)\<close> with the default \<open>max_len = 80\<close>.\<close>

definition safe_name_default :: "ustr \<Rightarrow> ustr" where
  "safe_name_default name = safe_name name 80"




section \<open>More string operations\<close>

text \<open>\<open>s.startswith(p)\<close> and \<open>p in s\<close> (substring test).\<close>

fun startswith :: "ustr \<Rightarrow> ustr \<Rightarrow> bool" where
  "startswith s [] = True"
| "startswith [] (p # ps) = False"
| "startswith (c # cs) (p # ps) = (c = p \<and> startswith cs ps)"

fun contains :: "ustr \<Rightarrow> ustr \<Rightarrow> bool" where
  "contains [] p = (p = [])"
| "contains (c # cs) p = (startswith (c # cs) p \<or> contains cs p)"

text \<open>
  \<open>str.lower()\<close> on one code point, for the basic Latin, Latin-1 and Cyrillic
  letters (U+0041..U+005A, U+00C0..U+00DE without U+00D7, U+0400..U+042F and
  U+0490); every other code point is left as it is. The labels of the source
  are lower-case Cyrillic and ASCII.
\<close>

definition lower_cp :: "nat \<Rightarrow> nat" where
  "lower_cp c =
     (if 65 \<le> c \<and> c \<le> 90 then c + 32
      else if 192 \<le> c \<and> c \<le> 222 \<and> c \<noteq> 215 then c + 32
      else if 1024 \<le> c \<and> c \<le> 1039 then c + 80
      else if 1040 \<le> c \<and> c \<le> 1071 then c + 32
      else if c = 1168 then 1169
      else c)"

definition lower :: "ustr \<Rightarrow> ustr" where
  "lower s = map lower_cp s"

section \<open>The parsed page\<close>

text \<open>
  \<open>BeautifulSoup(html, "html.parser")\<close> turns the markup into a tree of tags and
  strings. The model starts from that tree: a tag has a name (lower-cased by
  the parser), the tokens of its \<open>class\<close> attribute, its other attributes as a
  dictionary, and its children in document order. The \<open>BeautifulSoup\<close> object
  itself is the root tag \<open>[document]\<close>, without classes or attributes. The
  strings of the tree are its text; comments and the contents of scripts and
  style sheets, which \<open>get_text\<close> leaves out, are not part of it.
\<close>

datatype node =
    Text ustr
  | Elem ustr "ustr list" "(ustr \<times> ustr) list" "node list"

definition document :: "node list \<Rightarrow> node" where
  "document cs = Elem (ascii ''[document]'') [] [] cs"

fun kids :: "node \<Rightarrow> node list" where
  "kids (Text s) = []"
| "kids (Elem t cl av cs) = cs"

fun is_tag :: "ustr \<Rightarrow> node \<Rightarrow> bool" where
  "is_tag n (Text s) = False"
| "is_tag n (Elem t cl av cs) = (t = n)"

fun has_class :: "ustr \<Rightarrow> node \<Rightarrow> bool" where
  "has_class c (Text s) = False"
| "has_class c (Elem t cl av cs) = (c \<in> set cl)"

text \<open>\<open>tag.get(name)\<close>: the attribute's value, \<open>None\<close> when the tag has none.\<close>

fun attr_get :: "ustr \<Rightarrow> node \<Rightarrow> ustr option" where
  "attr_get n (Text s) = None"
| "attr_get n (Elem t cl av cs) = map_of av n"

text \<open>The descendants of a node in document order (the node itself is not one).\<close>

fun descendants :: "node \<Rightarrow> node list" where
  "descendants (Text s) = []"
| "descendants (Elem t cl av cs) = concat (map (\<lambda>c. c # descendants c) cs)"

text \<open>The descendants of a node in document order, each with its parent.\<close>

fun descendants_of :: "node \<Rightarrow> (node \<times> node) list" where
  "descendants_of (Text s) = []"
| "descendants_of (Elem t cl av cs) =
     concat (map (\<lambda>c. (Elem t cl av cs, c) # descendants_of c) cs)"

text \<open>
  \<open>node.select(".c")\<close>, \<open>node.select_one(".c")\<close>, \<open>node.find_all(names)\<close>,
  \<open>node.find(name)\<close> and \<open>node.find_all(name, recursive=False)\<close>.
\<close>

definition select_class :: "ustr \<Rightarrow> node \<Rightarrow> node list" where
  "select_class c n = filter (has_class c) (descendants n)"

definition first_of :: "'a list \<Rightarrow> 'a option" where
  "first_of xs = (case xs of [] \<Rightarrow> None | x # _ \<Rightarrow> Some x)"

definition select_one_class :: "ustr \<Rightarrow> node \<Rightarrow> node option" where
  "select_one_class c n = first_of (select_class c n)"

definition find_all :: "ustr list \<Rightarrow> node \<Rightarrow> node list" where
  "find_all names n = filter (\<lambda>d. \<exists>t \<in> set names. is_tag t d) (descendants n)"

definition find_tag :: "ustr \<Rightarrow> node \<Rightarrow> node option" where
  "find_tag name n = first_of (find_all [name] n)"

definition find_children :: "ustr \<Rightarrow> node \<Rightarrow> node list" where
  "find_children name n = filter (is_tag name) (kids n)"

text \<open>
  \<open>node.select(".c t")\<close> for a class \<open>c\<close> among \<open>cs\<close> and a tag name \<open>t\<close>: the
  descendants of the node named \<open>t\<close> that have an ancestor with one of the
  classes, in document order, each once. The flag says that an ancestor of the
  node has such a class; the code selects from the root of the page, where it
  is false.
\<close>

fun select_under :: "ustr list \<Rightarrow> ustr \<Rightarrow> bool \<Rightarrow> node \<Rightarrow> node list" where
  "select_under cs t b (Text s) = []"
| "select_under cs t b (Elem t' cl av ks) =
     concat (map (\<lambda>k. (if (b \<or> (\<exists>c \<in> set cs. c \<in> set cl)) \<and> is_tag t k then [k] else []) @
                      select_under cs t (b \<or> (\<exists>c \<in> set cs. c \<in> set cl)) k) ks)"

text \<open>The strings below a node in document order.\<close>

fun strings :: "node \<Rightarrow> ustr list" where
  "strings (Text s) = [s]"
| "strings (Elem t cl av cs) = concat (map strings cs)"

fun join :: "ustr \<Rightarrow> ustr list \<Rightarrow> ustr" where
  "join sep [] = []"
| "join sep [x] = x"
| "join sep (x # y # ys) = x @ sep @ join sep (y # ys)"

text \<open>\<open>tag.get_text(" ", strip=True)\<close>: the stripped, non-empty strings joined by a space.\<close>

definition get_text :: "node \<Rightarrow> ustr" where
  "get_text n = join [32] (filter (\<lambda>s. s \<noteq> []) (map strip (strings n)))"

section \<open>parse_folder_tree\<close>

definition MOODLE_BASE :: ustr where
  "MOODLE_BASE = ascii ''https://moodle.elct.lnu.edu.ua''"

definition marker :: ustr where
  "marker = ascii ''pluginfile.php''"

definition href :: ustr where
  "href = ascii ''href''"

text \<open>\<open>node.select("a[href*='pluginfile.php']")\<close>.\<close>

definition is_marker_anchor :: "node \<Rightarrow> bool" where
  "is_marker_anchor d \<longleftrightarrow>
     is_tag (ascii ''a'') d \<and>
     (case attr_get href d of None \<Rightarrow> False | Some h \<Rightarrow> contains h marker)"

definition select_marker_anchors :: "node \<Rightarrow> node list" where
  "select_marker_anchors n = filter is_marker_anchor (descendants n)"

text \<open>
  \<open>node.select(".ygtvchildren > .ygtvitem")\<close>: the descendants of the node with the
  class \<open>ygtvitem\<close> whose parent has the class \<open>ygtvchildren\<close>.
\<close>

definition select_child_items :: "node \<Rightarrow> node list" where
  "select_child_items n =
     map snd (filter (\<lambda>(p, d). has_class (ascii ''ygtvchildren'') p \<and> has_class (ascii ''ygtvitem'') d)
                (descendants_of n))"

text \<open>
  The body of the loops over anchors:
  \<^verbatim>\<open>
      href = a.get("href")
      if not href:
          continue
      if href.startswith("/"):
          href = MOODLE_BASE + href
      if href not in files:
          files.append(href)
  \<close>
\<close>

definition resolve :: "ustr \<Rightarrow> ustr" where
  "resolve h = (if startswith h [47] then MOODLE_BASE @ h else h)"

text \<open>\<open>if u not in files: files.append(u)\<close>\<close>

definition add_url :: "ustr \<Rightarrow> ustr list \<Rightarrow> ustr list" where
  "add_url u files = (if u \<in> set files then files else files @ [u])"

definition add_href :: "node \<Rightarrow> ustr list \<Rightarrow> ustr list" where
  "add_href a files =
     (case attr_get href a of
        None \<Rightarrow> files
      | Some h \<Rightarrow> if h = [] then files else add_url (resolve h) files)"

text \<open>
  \<^verbatim>\<open>
  def recurse(node):
      for a in node.select("a[href*='pluginfile.php']"):
          ...
      for child in node.select(".ygtvchildren > .ygtvitem"):
          recurse(child)
  \<close>
  The list \<open>files\<close> of the enclosing function is passed in and returned. The
  depth of the recursion is not bounded here, as it is by the interpreter.
\<close>

function recurse :: "node \<Rightarrow> ustr list \<Rightarrow> ustr list" where
  "recurse n files =
     fold recurse (select_child_items n) (fold add_href (select_marker_anchors n) files)"
  by pat_completeness auto


text \<open>
  \<^verbatim>\<open>
      for tree in soup.select(".foldertree"):
          roots = tree.find_all("div", class_="ygtvitem", recursive=False)
          if not roots:
              roots = tree.select(".ygtvitem")
          for r in roots:
              recurse(r)
      return files
  \<close>
\<close>

definition tree_roots :: "node \<Rightarrow> node list" where
  "tree_roots tree =
     (let roots = filter (\<lambda>d. is_tag (ascii ''div'') d \<and> has_class (ascii ''ygtvitem'') d) (kids tree)
      in if roots = [] then select_class (ascii ''ygtvitem'') tree else roots)"

definition all_roots :: "node \<Rightarrow> node list" where
  "all_roots soup = concat (map tree_roots (select_class (ascii ''foldertree'') soup))"

definition parse_folder_tree :: "node \<Rightarrow> ustr list" where
  "parse_folder_tree soup = fold recurse (all_roots soup) []"

text \<open>
  The walk itself: the nodes on which \<open>recurse\<close> is called, in the order of the
  calls, for one root and for the whole page.
\<close>

function recurse_calls :: "node \<Rightarrow> node list" where
  "recurse_calls n = n # concat (map recurse_calls (select_child_items n))"
  by pat_completeness auto

definition folder_calls :: "node \<Rightarrow> node list" where
  "folder_calls soup = concat (map recurse_calls (all_roots soup))"

text \<open>
  The tree items one level down from a node: the items that are children of a
  child group that is itself a child of the node.
\<close>

definition direct_child_items :: "node \<Rightarrow> node list" where
  "direct_child_items n =
     concat (map (\<lambda>g. filter (has_class (ascii ''ygtvitem'')) (kids g))
               (filter (has_class (ascii ''ygtvchildren'')) (kids n)))"

text \<open>
  An order-preserving set: the list without the later occurrences of each
  element.
\<close>

fun first_occ :: "'a list \<Rightarrow> 'a list" where
  "first_occ [] = []"
| "first_occ (x # xs) = x # filter (\<lambda>y. y \<noteq> x) (first_occ xs)"

text \<open>The targets of the resource-file anchors below a node, in document order.\<close>

definition marker_hrefs :: "node \<Rightarrow> ustr list" where
  "marker_hrefs n = List.map_filter (attr_get href) (select_marker_anchors n)"

text \<open>The URLs that the walk of \<open>parse_folder_tree\<close> meets at the roots, in its order.\<close>

definition folder_candidates :: "node \<Rightarrow> ustr list" where
  "folder_candidates soup = concat (map (\<lambda>r. map resolve (marker_hrefs r)) (all_roots soup))"

section \<open>collect_activity_files\<close>

text \<open>
  The browser page: \<open>page.goto(url)\<close> either raises (\<open>None\<close>) or succeeds, and then
  \<open>BeautifulSoup(page.content(), "html.parser")\<close> is the tree of the page it
  opened.
\<close>

type_synonym page = "ustr \<Rightarrow> node option"

text \<open>
  \<^verbatim>\<open>
      def add_if_pluginfile(raw: Optional[str]) -> None:
          if not raw:
              return
          u = raw.strip()
          if not u or u.startswith("#") or u.lower().startswith("javascript:"):
              return
          if u.startswith("/"):
              u = MOODLE_BASE + u
          if "pluginfile.php" in u and u not in urls:
              urls.append(u)
  \<close>
\<close>

text \<open>A target that is empty after stripping, an in-page anchor or a script.\<close>

definition placeholder :: "ustr \<Rightarrow> bool" where
  "placeholder u \<longleftrightarrow> u = [] \<or> startswith u [35] \<or> startswith (lower u) (ascii ''javascript:'')"

definition add_if_pluginfile :: "ustr option \<Rightarrow> ustr list \<Rightarrow> ustr list" where
  "add_if_pluginfile raw urls =
     (case raw of
        None \<Rightarrow> urls
      | Some r \<Rightarrow>
          if r = [] then urls
          else if placeholder (strip r) then urls
          else if contains (resolve (strip r)) marker then add_url (resolve (strip r)) urls
          else urls)"

definition media_tags :: "ustr list" where
  "media_tags = [ascii ''iframe'', ascii ''img'', ascii ''source'', ascii ''video'', ascii ''audio'']"

definition src :: ustr where
  "src = ascii ''src''"

text \<open>
  \<^verbatim>\<open>
      urls: List[str] = []
      for a in soup.find_all("a"):
          add_if_pluginfile(a.get("href"))
      for tag in soup.find_all(["iframe", "img", "source", "video", "audio"]):
          add_if_pluginfile(tag.get("src"))
  \<close>
\<close>

definition scan_targets :: "node \<Rightarrow> ustr option list" where
  "scan_targets soup =
     map (attr_get href) (find_all [ascii ''a''] soup) @ map (attr_get src) (find_all media_tags soup)"

definition pluginfile_scan :: "node \<Rightarrow> ustr list" where
  "pluginfile_scan soup = fold add_if_pluginfile (scan_targets soup) []"

text \<open>
  \<^verbatim>\<open>
      candidates = soup.select(
          ".resourceworkaround a, .activityinstance a, .region-main a")
      for a in candidates:
          href = a.get("href")
          if not href:
              continue
          href = href.strip()
          if not href or href.startswith("#") or href.lower().startswith("javascript:"):
              continue
          if href.startswith("/"):
              href = MOODLE_BASE + href
          urls.append(href)
          break
  \<close>
  A selector list selects the tags that match any of its selectors, in document
  order.
\<close>

definition fallback_regions :: "ustr list" where
  "fallback_regions = [ascii ''resourceworkaround'', ascii ''activityinstance'', ascii ''region-main'']"

definition candidates :: "node \<Rightarrow> node list" where
  "candidates soup = select_under fallback_regions (ascii ''a'') False soup"

fun first_link :: "node list \<Rightarrow> ustr option" where
  "first_link [] = None"
| "first_link (a # as) =
     (case attr_get href a of
        None \<Rightarrow> first_link as
      | Some h \<Rightarrow>
          if h = [] then first_link as
          else if placeholder (strip h) then first_link as
          else Some (resolve (strip h)))"

text \<open>
  The result of \<open>collect_activity_files\<close> together with the URLs it passed to
  \<open>page.goto\<close>.
\<close>

definition collect_activity_files :: "page \<Rightarrow> ustr \<Rightarrow> ustr list \<times> ustr list" where
  "collect_activity_files page activity_url =
     (if activity_url = [] \<or> activity_url = [35] \<or> \<not> startswith activity_url (ascii ''http'')
      then ([], [])
      else if contains activity_url marker then ([activity_url], [])
      else
        (case page activity_url of
           None \<Rightarrow> ([], [activity_url])
         | Some soup \<Rightarrow>
             if select_one_class (ascii ''foldertree'') soup \<noteq> None \<and> parse_folder_tree soup \<noteq> []
             then (parse_folder_tree soup, [activity_url])
             else if pluginfile_scan soup \<noteq> [] then (pluginfile_scan soup, [activity_url])
             else
               (case first_link (candidates soup) of
                  Some h \<Rightarrow> ([h], [activity_url])
                | None \<Rightarrow> ([activity_url], [activity_url]))))"

text \<open>
  The URLs that the scan of \<open>collect_activity_files\<close> meets, in its order: the
  targets of all anchors, then the targets of all media tags.
\<close>

definition scan_keep :: "ustr option \<Rightarrow> ustr option" where
  "scan_keep raw =
     (case raw of
        None \<Rightarrow> None
      | Some r \<Rightarrow>
          if r = [] \<or> placeholder (strip r) \<or> \<not> contains (resolve (strip r)) marker then None
          else Some (resolve (strip r)))"

definition scan_candidates :: "node \<Rightarrow> ustr list" where
  "scan_candidates soup = List.map_filter scan_keep (scan_targets soup)"

text \<open>
  The same URLs in the order of the document: every anchor and media tag at its
  place in the page.
\<close>

definition target_of :: "node \<Rightarrow> ustr option" where
  "target_of d = (if is_tag (ascii ''a'') d then attr_get href d else attr_get src d)"

definition document_order_candidates :: "node \<Rightarrow> ustr list" where
  "document_order_candidates soup =
     List.map_filter (\<lambda>d. scan_keep (target_of d)) (find_all (ascii ''a'' # media_tags) soup)"

text \<open>
  The candidate anchors taken region by region, in the order in which the
  selector list names the regions.
\<close>

definition candidates_by_region :: "node \<Rightarrow> node list" where
  "candidates_by_region soup =
     concat (map (\<lambda>c. select_under [c] (ascii ''a'') False soup) fallback_regions)"

text \<open>An anchor whose target the fallback accepts.\<close>

definition usable :: "node \<Rightarrow> bool" where
  "usable a \<longleftrightarrow> (case attr_get href a of None \<Rightarrow> False | Some h \<Rightarrow> h \<noteq> [] \<and> \<not> placeholder (strip h))"

text \<open>The target that the fallback takes from an anchor.\<close>

definition resolved_target :: "node \<Rightarrow> ustr" where
  "resolved_target a = (case attr_get href a of None \<Rightarrow> [] | Some h \<Rightarrow> resolve (strip h))"


section \<open>The recursion limit\<close>

text \<open>
  \<open>recurse\<close> is a Python function that calls itself, and the interpreter allows
  only a bounded number of nested calls (\<open>sys.getrecursionlimit()\<close>, 1000 by
  default, less the frames of the callers; the source does not raise it). The
  call that would exceed the bound raises \<open>RecursionError\<close>, which neither
  \<open>recurse\<close> nor \<open>parse_folder_tree\<close> catches. Here \<open>limit\<close> is the number of nested
  calls of \<open>recurse\<close> that the interpreter allows, and the result is the list of
  files or the error.
\<close>

datatype py_error = RecursionError

fun recurse_limited :: "nat \<Rightarrow> node \<Rightarrow> ustr list \<Rightarrow> py_error + ustr list" where
  "recurse_limited 0 n files = Inl RecursionError"
| "recurse_limited (Suc d) n files =
     fold (\<lambda>c r. case r of Inl e \<Rightarrow> Inl e | Inr fs \<Rightarrow> recurse_limited d c fs)
       (select_child_items n) (Inr (fold add_href (select_marker_anchors n) files))"

definition parse_folder_tree_limited :: "nat \<Rightarrow> node \<Rightarrow> py_error + ustr list" where
  "parse_folder_tree_limited limit soup =
     fold (\<lambda>r res. case res of Inl e \<Rightarrow> Inl e | Inr fs \<Rightarrow> recurse_limited limit r fs)
       (all_roots soup) (Inr [])"

text \<open>
  The number of nested calls of \<open>recurse\<close> that the walk from a node needs: one
  more than the largest number that a selected item needs.
\<close>

function walk_depth :: "node \<Rightarrow> nat" where
  "walk_depth n = Suc (fold max (map walk_depth (select_child_items n)) 0)"
  by pat_completeness auto

text \<open>A chain of tree items, each in the child group of the one before.\<close>

fun nested_items :: "nat \<Rightarrow> node" where
  "nested_items 0 = Elem (ascii ''div'') [ascii ''ygtvitem''] [] []"
| "nested_items (Suc k) =
     Elem (ascii ''div'') [ascii ''ygtvitem''] []
       [Elem (ascii ''div'') [ascii ''ygtvchildren''] [] [nested_items k]]"

definition deep_folder_page :: "nat \<Rightarrow> node" where
  "deep_folder_page k = document [Elem (ascii ''div'') [ascii ''foldertree''] [] [nested_items k]]"


section \<open>parse_assign_page\<close>

text \<open>
  The values of the metadata dictionary: \<open>None\<close>, a string, a list of strings
  or a float. The type of floats is a parameter: \<open>float(t)\<close> is a function \<open>flt\<close>
  that gives \<open>Some\<close> float, or \<open>None\<close> where \<open>float\<close> raises \<open>ValueError\<close>.
\<close>

datatype 'f pyval = PNone | PStr ustr | PList "ustr list" | PFloat 'f

type_synonym 'f meta = "string \<Rightarrow> 'f pyval option"

text \<open>\<open>meta.get(k)\<close>: \<open>None\<close> for a key that the dictionary does not have.\<close>

definition dict_get :: "'f meta \<Rightarrow> string \<Rightarrow> 'f pyval" where
  "dict_get m k = (case m k of None \<Rightarrow> PNone | Some v \<Rightarrow> v)"

text \<open>\<open>s.strip(chars)\<close> and \<open>s.replace(old, "", 1)\<close>.\<close>

definition strip_chars :: "nat list \<Rightarrow> ustr \<Rightarrow> ustr" where
  "strip_chars cs s =
     rev (dropWhile (\<lambda>c. c \<in> set cs) (rev (dropWhile (\<lambda>c. c \<in> set cs) s)))"

fun remove_first :: "ustr \<Rightarrow> ustr \<Rightarrow> ustr" where
  "remove_first old [] = []"
| "remove_first old (c # cs) =
     (if old = [] then c # cs
      else if startswith (c # cs) old then drop (length old) (c # cs)
      else c # remove_first old cs)"

text \<open>\<open>s.split(sep)\<close> for a one-character separator.\<close>

fun split_on :: "nat \<Rightarrow> ustr \<Rightarrow> ustr list" where
  "split_on sep [] = [[]]"
| "split_on sep (c # cs) =
     (if c = sep then [] # split_on sep cs
      else (case split_on sep cs of [] \<Rightarrow> [[c]] | p # ps \<Rightarrow> (c # p) # ps))"

text \<open>
  \<^verbatim>\<open>
  def _normalize_number(text: str) -> Optional[float]:
      t = text.strip().replace("\u00a0", " ")
      t = t.replace(" ", "").replace(",", ".")
      try:
          return float(t)
      except ValueError:
          return None
  \<close>
\<close>

definition normalize_text :: "ustr \<Rightarrow> ustr" where
  "normalize_text text =
     replace_char 44 [46] (replace_char 32 [] (replace_char 160 [32] (strip text)))"

definition normalize_number :: "(ustr \<Rightarrow> 'f option) \<Rightarrow> ustr \<Rightarrow> 'f option" where
  "normalize_number flt text = flt (normalize_text text)"

definition opt_float :: "'f option \<Rightarrow> 'f pyval" where
  "opt_float v = (case v of None \<Rightarrow> PNone | Some x \<Rightarrow> PFloat x)"

text \<open>The label \<^verbatim>\<open>"\u043f\u043e\u0447\u0430\u0442\u043e\u043a \u043f\u0440\u0438\u0439\u043c\u0430\u043d\u043d\u044f"\<close>.\<close>

definition lbl_start_accept :: ustr where
  "lbl_start_accept = [1087, 1086, 1095, 1072, 1090, 1086, 1082, 32, 1087, 1088, 1080, 1081, 1084, 1072, 1085, 1085, 1103]"

text \<open>The label \<^verbatim>\<open>"\u0442\u0435\u0440\u043c\u0456\u043d \u0441\u043f\u043b\u0438\u0432\u0430\u0454"\<close>.\<close>

definition lbl_due_expires :: ustr where
  "lbl_due_expires = [1090, 1077, 1088, 1084, 1110, 1085, 32, 1089, 1087, 1083, 1080, 1074, 1072, 1108]"

text \<open>The label \<^verbatim>\<open>"\u0434\u043e\u0441\u0442\u0443\u043f\u043d\u043e \u0437"\<close>.\<close>

definition lbl_available_uk1 :: ustr where
  "lbl_available_uk1 = [1076, 1086, 1089, 1090, 1091, 1087, 1085, 1086, 32, 1079]"

text \<open>The label \<^verbatim>\<open>"\u0434\u043e\u0441\u0442\u0443\u043f\u043d\u0435 \u0437"\<close>.\<close>

definition lbl_available_uk2 :: ustr where
  "lbl_available_uk2 = [1076, 1086, 1089, 1090, 1091, 1087, 1085, 1077, 32, 1079]"

text \<open>The label \<^verbatim>\<open>"\u0442\u0435\u0440\u043c\u0456\u043d \u0437\u0434\u0430\u0447\u0456"\<close>.\<close>

definition lbl_due_uk :: ustr where
  "lbl_due_uk = [1090, 1077, 1088, 1084, 1110, 1085, 32, 1079, 1076, 1072, 1095, 1110]"

text \<open>The label \<^verbatim>\<open>"\u043e\u0441\u0442\u0430\u043d\u043d\u044f \u043c\u043e\u0436\u043b\u0438\u0432\u0456\u0441\u0442\u044c \u0437\u0434\u0430\u0447\u0456"\<close>.\<close>

definition lbl_cutoff_uk :: ustr where
  "lbl_cutoff_uk = [1086, 1089, 1090, 1072, 1085, 1085, 1103, 32, 1084, 1086, 1078, 1083, 1080, 1074, 1110, 1089, 1090, 1100, 32, 1079, 1076, 1072, 1095, 1110]"

text \<open>The label \<^verbatim>\<open>"\u0441\u043f\u0440\u043e\u0431\u0430 \u043d\u043e\u043c\u0435\u0440"\<close>.\<close>

definition lbl_attempt :: ustr where
  "lbl_attempt = [1089, 1087, 1088, 1086, 1073, 1072, 32, 1085, 1086, 1084, 1077, 1088]"

text \<open>The label \<^verbatim>\<open>"\u0441\u0442\u0430\u0442\u0443\u0441 \u0440\u043e\u0431\u043e\u0442\u0438"\<close>.\<close>

definition lbl_submission_status :: ustr where
  "lbl_submission_status = [1089, 1090, 1072, 1090, 1091, 1089, 32, 1088, 1086, 1073, 1086, 1090, 1080]"

text \<open>The label \<^verbatim>\<open>"\u0441\u0442\u0430\u0442\u0443\u0441 \u043e\u0446\u0456\u043d\u0435\u043d\u043d\u044f"\<close>.\<close>

definition lbl_grading_status :: ustr where
  "lbl_grading_status = [1089, 1090, 1072, 1090, 1091, 1089, 32, 1086, 1094, 1110, 1085, 1077, 1085, 1085, 1103]"

text \<open>The label \<^verbatim>\<open>"\u0437\u0430\u043b\u0438\u0448\u0438\u043b\u043e\u0441\u044f \u0447\u0430\u0441\u0443"\<close>.\<close>

definition lbl_time_remaining :: ustr where
  "lbl_time_remaining = [1079, 1072, 1083, 1080, 1096, 1080, 1083, 1086, 1089, 1103, 32, 1095, 1072, 1089, 1091]"

text \<open>The label \<^verbatim>\<open>"\u0432\u043e\u0441\u0442\u0430\u043d\u043d\u0454 \u0437\u043c\u0456\u043d\u0435\u043d\u043e"\<close>.\<close>

definition lbl_last_modified :: ustr where
  "lbl_last_modified = [1074, 1086, 1089, 1090, 1072, 1085, 1085, 1108, 32, 1079, 1084, 1110, 1085, 1077, 1085, 1086]"

text \<open>The label \<^verbatim>\<open>"\u043e\u0446\u0456\u043d\u043a\u0430"\<close>.\<close>

definition lbl_grade :: ustr where
  "lbl_grade = [1086, 1094, 1110, 1085, 1082, 1072]"

text \<open>The dictionary that \<open>parse_assign_page\<close> starts from.\<close>

definition meta0 :: "'f meta" where
  "meta0 =
     [''start_at'' \<mapsto> PNone, ''due_at'' \<mapsto> PNone, ''cutoff_at'' \<mapsto> PNone,
      ''attempt'' \<mapsto> PNone, ''submission_status'' \<mapsto> PNone, ''grading_status'' \<mapsto> PNone,
      ''time_remaining'' \<mapsto> PNone, ''last_modified'' \<mapsto> PNone, ''files'' \<mapsto> PList [],
      ''grade_text'' \<mapsto> PNone, ''grade_raw'' \<mapsto> PNone, ''grade_max'' \<mapsto> PNone]"

text \<open>
  The body of the loop over the children of the \<open>.activity-dates\<close> block:
  \<^verbatim>\<open>
          strong_tag = div.find("strong")
          if not strong_tag:
              continue
          label_raw = strong_tag.get_text(" ", strip=True)
          label = label_raw.lower()
          full_text = div.get_text(" ", strip=True)
          date_text = full_text.replace(label_raw, "", 1).strip(" :")
          if not date_text:
              continue
          if <label 1> in label and meta["start_at"] is None:
              meta["start_at"] = date_text
          elif <label 2> in label and meta["due_at"] is None:
              meta["due_at"] = date_text
  \<close>
\<close>

definition date_text_of :: "node \<Rightarrow> node \<Rightarrow> ustr" where
  "date_text_of strong_tag dv =
     strip_chars [32, 58] (remove_first (get_text strong_tag) (get_text dv))"

definition activity_date_step :: "node \<Rightarrow> 'f meta \<Rightarrow> 'f meta" where
  "activity_date_step dv m =
     (case find_tag (ascii ''strong'') dv of
        None \<Rightarrow> m
      | Some strong_tag \<Rightarrow>
          if date_text_of strong_tag dv = [] then m
          else if contains (lower (get_text strong_tag)) lbl_start_accept \<and> m ''start_at'' = Some PNone
               then m(''start_at'' \<mapsto> PStr (date_text_of strong_tag dv))
          else if contains (lower (get_text strong_tag)) lbl_due_expires \<and> m ''due_at'' = Some PNone
               then m(''due_at'' \<mapsto> PStr (date_text_of strong_tag dv))
          else m)"

text \<open>
  The body of the loop over \<open>date_rows\<close>:
  \<^verbatim>\<open>
          text_raw = row.get_text(" ", strip=True)
          text = text_raw.lower()
          if (... in text or ... in text or "available from" in text) and meta["start_at"] is None:
              meta["start_at"] = text_raw
          if (... in text or "due date" in text) and meta["due_at"] is None:
              meta["due_at"] = text_raw
          if (... in text or "cut-off" in text) and meta["cutoff_at"] is None:
              meta["cutoff_at"] = text_raw
  \<close>
\<close>

definition set_if_none :: "bool \<Rightarrow> string \<Rightarrow> ustr \<Rightarrow> 'f meta \<Rightarrow> 'f meta" where
  "set_if_none labelled k v m = (if labelled \<and> m k = Some PNone then m(k \<mapsto> PStr v) else m)"

definition date_row_step :: "node \<Rightarrow> 'f meta \<Rightarrow> 'f meta" where
  "date_row_step row m =
     (let text_raw = get_text row; text = lower text_raw;
          m1 = set_if_none (contains text lbl_available_uk1 \<or> contains text lbl_available_uk2 \<or>
                            contains text (ascii ''available from'')) ''start_at'' text_raw m;
          m2 = set_if_none (contains text lbl_due_uk \<or> contains text (ascii ''due date''))
                 ''due_at'' text_raw m1
      in set_if_none (contains text lbl_cutoff_uk \<or> contains text (ascii ''cut-off''))
           ''cutoff_at'' text_raw m2)"

text \<open>
  The body of the loop over the rows of the status table:
  \<^verbatim>\<open>
          th = row.find("th")
          td = row.find("td")
          if not th or not td:
              continue
          label = th.get_text(" ", strip=True).lower()
          value = td.get_text(" ", strip=True)
          if <label> in label:
              meta["attempt"] = value
          elif <label> in label:
              meta["submission_status"] = value
          elif <label> in label:
              meta["grading_status"] = value
          elif <label> in label:
              meta["time_remaining"] = value
          elif <label> in label:
              meta["last_modified"] = value
  \<close>
\<close>

definition status_row_step :: "node \<Rightarrow> 'f meta \<Rightarrow> 'f meta" where
  "status_row_step row m =
     (case find_tag (ascii ''th'') row of
        None \<Rightarrow> m
      | Some th \<Rightarrow>
          (case find_tag (ascii ''td'') row of
             None \<Rightarrow> m
           | Some td \<Rightarrow>
               if contains (lower (get_text th)) lbl_attempt then m(''attempt'' \<mapsto> PStr (get_text td))
               else if contains (lower (get_text th)) lbl_submission_status
                    then m(''submission_status'' \<mapsto> PStr (get_text td))
               else if contains (lower (get_text th)) lbl_grading_status
                    then m(''grading_status'' \<mapsto> PStr (get_text td))
               else if contains (lower (get_text th)) lbl_time_remaining
                    then m(''time_remaining'' \<mapsto> PStr (get_text td))
               else if contains (lower (get_text th)) lbl_last_modified
                    then m(''last_modified'' \<mapsto> PStr (get_text td))
               else m))"

text \<open>The attached files: the loop over \<open>soup.select("a[href*='pluginfile.php']")\<close>.\<close>

definition assign_files :: "node \<Rightarrow> ustr list" where
  "assign_files soup = fold add_href (select_marker_anchors soup) []"

definition files_step :: "node \<Rightarrow> 'f meta \<Rightarrow> 'f meta" where
  "files_step soup m = m(''files'' \<mapsto> PList (assign_files soup))"

text \<open>
  The grade:
  \<^verbatim>\<open>
              grade_text = td.get_text(" ", strip=True)
              meta["grade_text"] = grade_text
              parts = grade_text.split("/")
              if len(parts) == 2:
                  left = _normalize_number(parts[0])
                  right = _normalize_number(parts[1])
                  meta["grade_raw"] = left
                  meta["grade_max"] = right
              break
  \<close>
\<close>

definition store_grade :: "(ustr \<Rightarrow> 'f option) \<Rightarrow> ustr \<Rightarrow> 'f meta \<Rightarrow> 'f meta" where
  "store_grade flt grade_text m =
     (case split_on 47 grade_text of
        [l, r] \<Rightarrow>
          m(''grade_text'' \<mapsto> PStr grade_text,
            ''grade_raw'' \<mapsto> opt_float (normalize_number flt l),
            ''grade_max'' \<mapsto> opt_float (normalize_number flt r))
      | _ \<Rightarrow> m(''grade_text'' \<mapsto> PStr grade_text))"

text \<open>
  The loop over the rows of the feedback table; it stops at the first row whose
  label names the grade.
\<close>

fun grade_loop :: "(ustr \<Rightarrow> 'f option) \<Rightarrow> node list \<Rightarrow> 'f meta \<Rightarrow> 'f meta" where
  "grade_loop flt [] m = m"
| "grade_loop flt (row # rows) m =
     (case find_tag (ascii ''th'') row of
        None \<Rightarrow> grade_loop flt rows m
      | Some th \<Rightarrow>
          (case find_tag (ascii ''td'') row of
             None \<Rightarrow> grade_loop flt rows m
           | Some td \<Rightarrow>
               if contains (lower (get_text th)) lbl_grade then store_grade flt (get_text td) m
               else grade_loop flt rows m))"

text \<open>The sources of the dates and of the status fields.\<close>

definition activity_date_divs :: "node \<Rightarrow> node list" where
  "activity_date_divs soup =
     (case select_one_class (ascii ''activity-dates'') soup of
        None \<Rightarrow> []
      | Some block \<Rightarrow> find_children (ascii ''div'') block)"

definition status_table_rows :: "node \<Rightarrow> node list" where
  "status_table_rows soup = select_under [ascii ''submissionstatustable''] (ascii ''tr'') False soup"

definition date_rows :: "node \<Rightarrow> node list" where
  "date_rows soup =
     (case select_one_class (ascii ''dates'') soup of
        None \<Rightarrow> []
      | Some block \<Rightarrow> find_all [ascii ''div''] block) @ status_table_rows soup"

definition feedback_rows :: "node \<Rightarrow> node list" where
  "feedback_rows soup = select_under [ascii ''feedbacktable''] (ascii ''tr'') False soup"

text \<open>The part of \<open>parse_assign_page\<close> after the page has been opened.\<close>

definition parse_assign_soup :: "(ustr \<Rightarrow> 'f option) \<Rightarrow> node \<Rightarrow> 'f meta" where
  "parse_assign_soup flt soup =
     (let m1 = fold activity_date_step (activity_date_divs soup) meta0;
          m2 = fold date_row_step (date_rows soup) m1;
          m3 = fold status_row_step (status_table_rows soup) m2;
          m4 = files_step soup m3
      in grade_loop flt (feedback_rows soup) m4)"

text \<open>
  \<^verbatim>\<open>
      try:
          page.goto(url, timeout=30000)
          time.sleep(1)
      except Exception as e:
          print(...)
          return {}
  \<close>
\<close>

definition parse_assign_page :: "(ustr \<Rightarrow> 'f option) \<Rightarrow> page \<Rightarrow> ustr \<Rightarrow> 'f meta" where
  "parse_assign_page flt page url =
     (case page url of None \<Rightarrow> Map.empty | Some soup \<Rightarrow> parse_assign_soup flt soup)"

text \<open>The caller's \<open>urls_to_download = meta.get("files") or []\<close>.\<close>

definition urls_to_download :: "'f meta \<Rightarrow> ustr list" where
  "urls_to_download m = (case dict_get m ''files'' of PList fs \<Rightarrow> fs | _ \<Rightarrow> [])"

text \<open>
  The writes of \<open>parse_assign_page\<close> to the dictionary, one per source element, in
  the order in which the code performs them.
\<close>

definition writers :: "(ustr \<Rightarrow> 'f option) \<Rightarrow> node \<Rightarrow> ('f meta \<Rightarrow> 'f meta) list" where
  "writers flt soup =
     map activity_date_step (activity_date_divs soup) @
     map date_row_step (date_rows soup) @
     map status_row_step (status_table_rows soup) @
     [files_step soup, grade_loop flt (feedback_rows soup)]"

definition run_writers :: "('f meta \<Rightarrow> 'f meta) list \<Rightarrow> 'f meta \<Rightarrow> 'f meta" where
  "run_writers ws m = fold (\<lambda>w. w) ws m"

definition grade_fields :: "string set" where
  "grade_fields = {''grade_text'', ''grade_raw'', ''grade_max''}"

definition date_fields :: "string set" where
  "date_fields = {''start_at'', ''due_at'', ''cutoff_at''}"

text \<open>The text of the grade cell: the cell of the first feedback row that names the grade.\<close>

fun grade_cell :: "node list \<Rightarrow> ustr option" where
  "grade_cell [] = None"
| "grade_cell (row # rows) =
     (case find_tag (ascii ''th'') row of
        None \<Rightarrow> grade_cell rows
      | Some th \<Rightarrow>
          (case find_tag (ascii ''td'') row of
             None \<Rightarrow> grade_cell rows
           | Some td \<Rightarrow>
               if contains (lower (get_text th)) lbl_grade then Some (get_text td)
               else grade_cell rows))"

text \<open>
  \<open>float(t)\<close> on the plain decimal literals \<open>[+-] digits [. digits]\<close> and
  \<open>[+-] . digits\<close> in ASCII, with the number they denote as a rational. It is the
  instance of the parameter \<open>flt\<close> used in the examples, where the numbers are
  doubles; every other string counts as not parsed here.
\<close>

definition is_digit :: "nat \<Rightarrow> bool" where
  "is_digit c \<longleftrightarrow> 48 \<le> c \<and> c \<le> 57"

definition digits_value :: "ustr \<Rightarrow> nat" where
  "digits_value ds = foldl (\<lambda>n d. 10 * n + (d - 48)) 0 ds"

definition unsigned_float :: "ustr \<Rightarrow> rat option" where
  "unsigned_float t =
     (case split_on 46 t of
        [i] \<Rightarrow> if i \<noteq> [] \<and> list_all is_digit i then Some (of_nat (digits_value i)) else None
      | [i, f] \<Rightarrow>
          if i @ f \<noteq> [] \<and> list_all is_digit (i @ f)
          then Some (of_nat (digits_value (i @ f)) / 10 ^ length f) else None
      | _ \<Rightarrow> None)"

definition dec_float :: "ustr \<Rightarrow> rat option" where
  "dec_float t =
     (case t of
        [] \<Rightarrow> None
      | c # cs \<Rightarrow>
          if c = 45 then map_option uminus (unsigned_float cs)
          else if c = 43 then unsigned_float cs
          else unsigned_float t)"

text \<open>
  The field that a row of the status table writes, with the value: the first
  label of the chain that the row's heading contains.
\<close>

definition status_fields :: "string set" where
  "status_fields =
     {''attempt'', ''submission_status'', ''grading_status'', ''time_remaining'', ''last_modified''}"

definition status_write :: "node \<Rightarrow> (string \<times> ustr) option" where
  "status_write row =
     (case find_tag (ascii ''th'') row of
        None \<Rightarrow> None
      | Some th \<Rightarrow>
          (case find_tag (ascii ''td'') row of
             None \<Rightarrow> None
           | Some td \<Rightarrow>
               if contains (lower (get_text th)) lbl_attempt then Some (''attempt'', get_text td)
               else if contains (lower (get_text th)) lbl_submission_status
                    then Some (''submission_status'', get_text td)
               else if contains (lower (get_text th)) lbl_grading_status
                    then Some (''grading_status'', get_text td)
               else if contains (lower (get_text th)) lbl_time_remaining
                    then Some (''time_remaining'', get_text td)
               else if contains (lower (get_text th)) lbl_last_modified
                    then Some (''last_modified'', get_text td)
               else None))"

text \<open>The value that the last row writing the field \<open>k\<close> gives, if a row writes it.\<close>

fun last_write :: "string \<Rightarrow> node list \<Rightarrow> ustr option" where
  "last_write k [] = None"
| "last_write k (r # rs) =
     (case last_write k rs of
        Some v \<Rightarrow> Some v
      | None \<Rightarrow>
          (case status_write r of
             None \<Rightarrow> None
           | Some (k', v) \<Rightarrow> if k' = k then Some v else None))"


section \<open>filename_from_content_disposition\<close>

text \<open>
  The literal characters of a pattern compiled with \<open>re.IGNORECASE\<close>: an ASCII
  letter of the pattern matches both of its cases, and \<open>i\<close>, \<open>k\<close> and \<open>s\<close> also match
  U+0130 and U+0131, U+212A, and U+017F; every other ASCII character matches
  itself only.
\<close>

definition ascii_lower :: "nat \<Rightarrow> nat" where
  "ascii_lower c = (if 65 \<le> c \<and> c \<le> 90 then c + 32 else c)"

definition ci_char :: "nat \<Rightarrow> nat \<Rightarrow> bool" where
  "ci_char p c \<longleftrightarrow>
     ascii_lower c = ascii_lower p \<or>
     (ascii_lower p = 105 \<and> (c = 304 \<or> c = 305)) \<or>
     (ascii_lower p = 107 \<and> c = 8490) \<or>
     (ascii_lower p = 115 \<and> c = 383)"

text \<open>The rest of the subject after a literal of the pattern, if the literal matches.\<close>

fun ci_prefix :: "ustr \<Rightarrow> ustr \<Rightarrow> ustr option" where
  "ci_prefix [] s = Some s"
| "ci_prefix (p # ps) [] = None"
| "ci_prefix (p # ps) (c # cs) = (if ci_char p c then ci_prefix ps cs else None)"

text \<open>
  \<open>re.search\<close>: the match at the leftmost position of the subject where the
  pattern matches; a match is the text of the pattern's group.
\<close>

fun re_search :: "(ustr \<Rightarrow> ustr option) \<Rightarrow> ustr \<Rightarrow> ustr option" where
  "re_search m [] = m []"
| "re_search m (c # cs) = (case m (c # cs) of Some g \<Rightarrow> Some g | None \<Rightarrow> re_search m cs)"

text \<open>
  The pattern \<^verbatim>\<open>filename\*\s*=\s*UTF-8''([^;]+)\<close> at the start of the subject.
  Both \<open>\s*\<close> are followed by a character that is no whitespace, so they take
  all the whitespace there is; the group takes everything up to the next \<open>;\<close>.
\<close>

definition match_ext :: "ustr \<Rightarrow> ustr option" where
  "match_ext s =
     (case ci_prefix (ascii ''filename'') s of
        Some (c1 # r1) \<Rightarrow>
          if c1 \<noteq> 42 then None
          else
            (case dropWhile isspace r1 of
               c2 # r2 \<Rightarrow>
                 if c2 \<noteq> 61 then None
                 else
                   (case ci_prefix (ascii ''UTF-8'') (dropWhile isspace r2) of
                      Some (q1 # q2 # r3) \<Rightarrow>
                        if q1 = 39 \<and> q2 = 39 \<and> takeWhile (\<lambda>c. c \<noteq> 59) r3 \<noteq> []
                        then Some (takeWhile (\<lambda>c. c \<noteq> 59) r3) else None
                    | _ \<Rightarrow> None)
             | [] \<Rightarrow> None)
      | _ \<Rightarrow> None)"

text \<open>
  The pattern \<^verbatim>\<open>filename\s*=\s*"([^"]+)"\<close> at the start of the subject: the group
  is the text between the quotes and must not be empty.
\<close>

definition match_quoted :: "ustr \<Rightarrow> ustr option" where
  "match_quoted s =
     (case ci_prefix (ascii ''filename'') s of
        None \<Rightarrow> None
      | Some r1 \<Rightarrow>
          (case dropWhile isspace r1 of
             c2 # r2 \<Rightarrow>
               if c2 \<noteq> 61 then None
               else
                 (case dropWhile isspace r2 of
                    q # r3 \<Rightarrow>
                      if q = 34 \<and> takeWhile (\<lambda>c. c \<noteq> 34) r3 \<noteq> [] \<and>
                         dropWhile (\<lambda>c. c \<noteq> 34) r3 \<noteq> []
                      then Some (takeWhile (\<lambda>c. c \<noteq> 34) r3) else None
                  | [] \<Rightarrow> None)
           | [] \<Rightarrow> None))"

text \<open>
  The pattern \<^verbatim>\<open>filename\s*=\s*([^;]+)\<close> at the start of the subject. When the
  whitespace after \<open>=\<close> is followed by \<open>;\<close> or by the end of the subject, the
  matcher backtracks and the group is the last whitespace character.
\<close>

definition match_unquoted :: "ustr \<Rightarrow> ustr option" where
  "match_unquoted s =
     (case ci_prefix (ascii ''filename'') s of
        None \<Rightarrow> None
      | Some r1 \<Rightarrow>
          (case dropWhile isspace r1 of
             c2 # r2 \<Rightarrow>
               if c2 \<noteq> 61 then None
               else if takeWhile (\<lambda>c. c \<noteq> 59) (dropWhile isspace r2) \<noteq> []
                    then Some (takeWhile (\<lambda>c. c \<noteq> 59) (dropWhile isspace r2))
               else if takeWhile isspace r2 \<noteq> [] then Some [last (takeWhile isspace r2)]
               else None
           | [] \<Rightarrow> None))"

text \<open>
  Decoding UTF-8, as \<open>bytes.decode("utf-8", ...)\<close> does: a list of code points,
  with \<open>None\<close> at each place where the decoder reports an error (an invalid start
  byte, or a sequence cut short by a byte that cannot continue it or by the end
  of the input; the decoder goes on at the offending byte).
\<close>

definition is_cont :: "nat \<Rightarrow> bool" where
  "is_cont c \<longleftrightarrow> 128 \<le> c \<and> c \<le> 191"

text \<open>The second byte of a sequence, which depends on the first.\<close>

definition second_ok :: "nat \<Rightarrow> nat \<Rightarrow> bool" where
  "second_ok b c \<longleftrightarrow>
     (if b = 224 then 160 \<le> c \<and> c \<le> 191
      else if b = 237 then 128 \<le> c \<and> c \<le> 159
      else if b = 240 then 144 \<le> c \<and> c \<le> 191
      else if b = 244 then 128 \<le> c \<and> c \<le> 143
      else is_cont c)"

text \<open>One step of the decoder: the first byte and the bytes after it give a code
  point or an error, and the bytes that are left.\<close>

definition utf8_step :: "nat \<Rightarrow> nat list \<Rightarrow> nat option \<times> nat list" where
  "utf8_step b bs =
     (if b < 128 then (Some b, bs)
      else if 194 \<le> b \<and> b \<le> 223 then
        (case bs of
           [] \<Rightarrow> (None, [])
         | c1 # r1 \<Rightarrow>
             if is_cont c1 then (Some ((b - 192) * 64 + (c1 - 128)), r1)
             else (None, c1 # r1))
      else if 224 \<le> b \<and> b \<le> 239 then
        (case bs of
           [] \<Rightarrow> (None, [])
         | c1 # r1 \<Rightarrow>
             if second_ok b c1 then
               (case r1 of
                  [] \<Rightarrow> (None, [])
                | c2 # r2 \<Rightarrow>
                    if is_cont c2
                    then (Some ((b - 224) * 4096 + (c1 - 128) * 64 + (c2 - 128)), r2)
                    else (None, c2 # r2))
             else (None, c1 # r1))
      else if 240 \<le> b \<and> b \<le> 244 then
        (case bs of
           [] \<Rightarrow> (None, [])
         | c1 # r1 \<Rightarrow>
             if second_ok b c1 then
               (case r1 of
                  [] \<Rightarrow> (None, [])
                | c2 # r2 \<Rightarrow>
                    if is_cont c2 then
                      (case r2 of
                         [] \<Rightarrow> (None, [])
                       | c3 # r3 \<Rightarrow>
                           if is_cont c3
                           then (Some ((b - 240) * 262144 + (c1 - 128) * 4096 + (c2 - 128) * 64 +
                                       (c3 - 128)), r3)
                           else (None, c3 # r3))
                    else (None, c2 # r2))
             else (None, c1 # r1))
      else (None, bs))"

function utf8_decode :: "nat list \<Rightarrow> nat option list" where
  "utf8_decode [] = []"
| "utf8_decode (b # bs) = fst (utf8_step b bs) # utf8_decode (snd (utf8_step b bs))"
  by pat_completeness auto

text \<open>\<open>errors="replace"\<close> puts U+FFFD at each error; \<open>errors="strict"\<close> raises.\<close>

definition decode_replace :: "nat list \<Rightarrow> ustr" where
  "decode_replace bs = map (\<lambda>x. case x of None \<Rightarrow> 65533 | Some c \<Rightarrow> c) (utf8_decode bs)"

definition decode_strict :: "nat list \<Rightarrow> ustr option" where
  "decode_strict bs =
     (if None \<in> set (utf8_decode bs) then None else Some (map the (utf8_decode bs)))"

text \<open>
  \<open>urllib.parse.unquote\<close>: in every maximal run of ASCII characters, \<open>%\<close> and two
  hexadecimal digits become a byte, and the bytes of the run are decoded as
  UTF-8 with replacement; the characters outside ASCII stay. A string without
  \<open>%\<close> is returned as it is.
\<close>

definition is_hex :: "nat \<Rightarrow> bool" where
  "is_hex c \<longleftrightarrow> (48 \<le> c \<and> c \<le> 57) \<or> (65 \<le> c \<and> c \<le> 70) \<or> (97 \<le> c \<and> c \<le> 102)"

definition hex_value :: "nat \<Rightarrow> nat" where
  "hex_value c = (if c \<le> 57 then c - 48 else if c \<le> 70 then c - 55 else c - 87)"

fun percent_decode :: "ustr \<Rightarrow> nat list" where
  "percent_decode (c # x # y # cs) =
     (if c = 37 \<and> is_hex x \<and> is_hex y then (16 * hex_value x + hex_value y) # percent_decode cs
      else c # percent_decode (x # y # cs))"
| "percent_decode cs = cs"

function unquote_runs :: "ustr \<Rightarrow> ustr" where
  "unquote_runs [] = []"
| "unquote_runs (c # cs) =
     (if c < 128
      then decode_replace (percent_decode (c # takeWhile (\<lambda>x. x < 128) cs)) @
           unquote_runs (dropWhile (\<lambda>x. x < 128) cs)
      else c # unquote_runs cs)"
  by pat_completeness auto

definition unquote :: "ustr \<Rightarrow> ustr" where
  "unquote s = (if 37 \<notin> set s then s else unquote_runs s)"

text \<open>
  \<^verbatim>\<open>
  def fix_encoding(filename: str) -> str:
      if not filename:
          return filename
      if any(ch in filename for ch in [<U+00D0>, <U+00D1>, <U+00E2>, <U+20AC>]):
          try:
              raw = filename.encode("latin1", errors="strict")
              fixed = raw.decode("utf-8")
              return fixed
          except UnicodeError:
              return filename
      return filename
  \<close>
\<close>

definition artifacts :: "nat set" where
  "artifacts = {208, 209, 226, 8364}"

definition fix_encoding :: "ustr \<Rightarrow> ustr" where
  "fix_encoding filename =
     (if filename = [] then filename
      else if \<exists>ch \<in> set filename. ch \<in> artifacts then
        (if \<exists>ch \<in> set filename. ch > 255 then filename
         else (case decode_strict filename of None \<Rightarrow> filename | Some fixed \<Rightarrow> fixed))
      else filename)"

text \<open>\<open>fname.split("/")[-1].split("\\")[-1]\<close>, \<open>fix_encoding\<close> and \<open>fname or None\<close>.\<close>

definition basename :: "ustr \<Rightarrow> ustr" where
  "basename fname = last (split_on 92 (last (split_on 47 fname)))"

definition finish :: "ustr \<Rightarrow> ustr option" where
  "finish fname = (if fix_encoding (basename fname) = [] then None else Some (fix_encoding (basename fname)))"

text \<open>
  \<^verbatim>\<open>
  def filename_from_content_disposition(cd: str | None) -> Optional[str]:
      if not cd:
          return None
      cd = cd.strip()
      m = re.search(r"filename\*\s*=\s*UTF-8''([^;]+)", cd, flags=re.IGNORECASE)
      if m:
          fname = unquote(m.group(1))
      else:
          m = re.search(r'filename\s*=\s*"([^"]+)"', cd, flags=re.IGNORECASE)
          if not m:
              m = re.search(r'filename\s*=\s*([^;]+)', cd, flags=re.IGNORECASE)
          if not m:
              return None
          fname = m.group(1).strip().strip('"')
      fname = fname.split("/")[-1].split("\\")[-1]
      fname = fix_encoding(fname)
      return fname or None
  \<close>
\<close>

definition filename_from_content_disposition :: "ustr option \<Rightarrow> ustr option" where
  "filename_from_content_disposition cd =
     (case cd of
        None \<Rightarrow> None
      | Some h \<Rightarrow>
          if h = [] then None
          else
            (case re_search match_ext (strip h) of
               Some g \<Rightarrow> finish (unquote g)
             | None \<Rightarrow>
                 (case re_search match_quoted (strip h) of
                    Some g \<Rightarrow> finish (strip_chars [34] (strip g))
                  | None \<Rightarrow>
                      (case re_search match_unquoted (strip h) of
                         Some g \<Rightarrow> finish (strip_chars [34] (strip g))
                       | None \<Rightarrow> None))))"

text \<open>The caller's \<open>filename = cd_name or default_name or "file"\<close>.\<close>

definition choose_filename :: "ustr option \<Rightarrow> ustr \<Rightarrow> ustr" where
  "choose_filename cd default_name =
     (case filename_from_content_disposition cd of
        Some n \<Rightarrow> if n \<noteq> [] then n else if default_name \<noteq> [] then default_name else ascii ''file''
      | None \<Rightarrow> if default_name \<noteq> [] then default_name else ascii ''file'')"


section \<open>Example pages\<close>

definition elem :: "string \<Rightarrow> string list \<Rightarrow> node list \<Rightarrow> node" where
  "elem t cl cs = Elem (ascii t) (map ascii cl) [] cs"

definition link :: "string \<Rightarrow> node" where
  "link h = Elem (ascii ''a'') [] [(href, ascii h)] []"

definition media :: "string \<Rightarrow> string \<Rightarrow> node" where
  "media t s = Elem (ascii t) [] [(src, ascii s)] []"

text \<open>A folder tree with an item two levels below the root item.\<close>

definition leaf_item :: node where
  "leaf_item = elem ''div'' [''ygtvitem''] [link ''/pluginfile.php/9/c.pdf'']"

definition mid_item :: node where
  "mid_item = elem ''div'' [''ygtvitem'']
     [link ''/pluginfile.php/9/b.pdf'', elem ''div'' [''ygtvchildren''] [leaf_item]]"

definition root_item :: node where
  "root_item = elem ''div'' [''ygtvitem'']
     [link ''/pluginfile.php/9/a.pdf'', elem ''div'' [''ygtvchildren''] [mid_item]]"

definition nested_folder_page :: node where
  "nested_folder_page = document [elem ''div'' [''foldertree''] [root_item]]"

text \<open>A page with an image before a link.\<close>

definition media_first_page :: node where
  "media_first_page =
     document [media ''img'' ''/pluginfile.php/3/figure.png'', link ''/pluginfile.php/3/notes.pdf'']"

text \<open>
  An activity page whose main region starts with a navigation link and holds
  the resource link in its \<open>.resourceworkaround\<close> block.
\<close>

definition workaround_page :: node where
  "workaround_page =
     document [elem ''div'' [''region-main'']
       [link ''/course/view.php?id=5'',
        elem ''div'' [''resourceworkaround''] [link ''https://files.example.org/notes.pdf'']]]"

definition plain_page :: node where
  "plain_page = document [elem ''p'' [] [Text (ascii ''No files here.'')]]"

text \<open>A browser that opens one URL with the given page and fails on every other.\<close>

definition serves :: "string \<Rightarrow> node \<Rightarrow> page" where
  "serves u soup = (\<lambda>url. if url = ascii u then Some soup else None)"

text \<open>An assignment page: a status table, a feedback table and an attached file.\<close>

definition row :: "ustr \<Rightarrow> string \<Rightarrow> node" where
  "row label v = elem ''tr'' [] [elem ''th'' [] [Text label], elem ''td'' [] [Text (ascii v)]]"

definition two_attempts_page :: node where
  "two_attempts_page =
     document [elem ''table'' [''submissionstatustable''] [row lbl_attempt ''1'', row lbl_attempt ''2'']]"

definition graded_page :: node where
  "graded_page =
     document
       [elem ''div'' [''dates'']
          [elem ''div'' [] [Text (ascii ''Due date: Monday''), Text (ascii '' 9:00'')],
           elem ''div'' [] [Text (ascii ''Due date: Friday'')]],
        elem ''table'' [''submissionstatustable''] [row lbl_attempt ''1''],
        link ''/pluginfile.php/4/task.pdf'',
        link ''/pluginfile.php/4/task.pdf'',
        elem ''table'' [''feedbacktable''] [row lbl_grade ''7,00 / 10,00'']]"

definition passed_page :: node where
  "passed_page = document [elem ''table'' [''feedbacktable''] [row lbl_grade ''Passed'']]"

text \<open>
  Header parameters: \<^verbatim>\<open>filename*=UTF-8''lecture%201.pdf\<close> and
  \<^verbatim>\<open>filename="report.docx"\<close>; and a header value with the quoted form before the
  extended form,
  \<^verbatim>\<open>attachment; filename="plain.txt"; FileName* = utf-8''dir%2Fna%C3%AFve%20file.txt; x=1\<close>.
\<close>

definition param_extended :: ustr where
  "param_extended = ascii ''filename*=UTF-8'' @ [39, 39] @ ascii ''lecture%201.pdf''"

definition param_quoted :: ustr where
  "param_quoted = ascii ''filename='' @ [34] @ ascii ''report.docx'' @ [34]"

definition header_both :: ustr where
  "header_both =
     ascii ''attachment; filename='' @ [34] @ ascii ''plain.txt'' @ [34] @
     ascii ''; FileName* = utf-8'' @ [39, 39] @ ascii ''dir%2Fna%C3%AFve%20file.txt; x=1''"

text \<open>
  Header values for the quoted and the unquoted form:
  \<^verbatim>\<open>attachment; filename="C:\docs\year;1\report.docx"\<close>,
  \<^verbatim>\<open>attachment; filename=notes v2.txt; size=3\<close> and
  \<^verbatim>\<open>attachment; filename=a/b/c.txt\<close>.
\<close>

definition header_quoted_path :: ustr where
  "header_quoted_path =
     ascii ''attachment; filename='' @ [34] @ ascii ''C:'' @ [92] @ ascii ''docs'' @ [92] @
     ascii ''year;1'' @ [92] @ ascii ''report.docx'' @ [34]"

definition header_unquoted :: ustr where
  "header_unquoted = ascii ''attachment; filename=notes v2.txt; size=3''"

definition header_unquoted_path :: ustr where
  "header_unquoted_path = ascii ''attachment; filename=a/b/c.txt''"


section \<open>Properties of safe_name\<close>







lemma rstrip_take: "rstrip s = take (length (rstrip s)) s"
proof -
  have "rev s = takeWhile isspace (rev s) @ dropWhile isspace (rev s)" by simp
  then have "s = rev (dropWhile isspace (rev s)) @ rev (takeWhile isspace (rev s))"
    by (metis rev_append rev_rev_ident)
  then have "s = rstrip s @ rev (takeWhile isspace (rev s))" by (simp add: rstrip_def)
  then show ?thesis by (metis append_eq_conv_conj)
qed



















lemmas safe_defs = safe_name_default_def safe_name_def sanitize_def ascii_def strip_def lstrip_def
  rstrip_def isspace_def replace_char_def collapse_ws_def slash_chars_def forbidden_chars_def
  slice_to_def







text \<open>
  The bound on \<open>max_len\<close> is needed: with a limit of 1 the name \<open>": a"\<close> becomes
  \<open>" a"\<close>, is cut to a space and stripped to the empty string. No caller passes
  a limit.
\<close>

lemma safe_name_short_limit: "safe_name (ascii '': a'') 1 = []"
  by (simp add: safe_defs)

section \<open>The walk of the folder tree ends\<close>

lemma descendants_size: "d \<in> set (descendants n) \<Longrightarrow> size d < size n"
proof (induction n arbitrary: d)
  case (Text s)
  then show ?case by simp
next
  case (Elem t cl av cs)
  from Elem.prems obtain c where c: "c \<in> set cs" and d: "d = c \<or> d \<in> set (descendants c)"
    by auto
  have "size c < size (Elem t cl av cs)"
    using c by (induction cs) auto
  moreover have "d \<in> set (descendants c) \<Longrightarrow> size d < size c"
    using Elem.IH c by blast
  ultimately show ?case using d by auto
qed

lemma descendants_of_snd: "map snd (descendants_of n) = descendants n"
proof (induction n)
  case (Text s)
  show ?case by simp
next
  case (Elem t cl av cs)
  have "map snd (concat (map (\<lambda>c. (p, c) # descendants_of c) ks)) =
        concat (map (\<lambda>c. c # descendants c) ks)" if "set ks \<subseteq> set cs" for p ks
    using that Elem.IH by (induction ks) auto
  then show ?case by simp
qed

lemma select_child_items_sub: "set (select_child_items n) \<subseteq> set (descendants n)"
proof -
  have "set (select_child_items n) \<subseteq> set (map snd (descendants_of n))"
    unfolding select_child_items_def by auto
  then show ?thesis by (simp only: descendants_of_snd)
qed

lemma select_child_items_size: "c \<in> set (select_child_items n) \<Longrightarrow> size c < size n"
  using select_child_items_sub descendants_size by blast

termination recurse
  by (relation "measure (\<lambda>(n, files). size n)") (auto simp: select_child_items_size)

termination recurse_calls
  by (relation "measure size") (auto simp: select_child_items_size)

declare recurse.simps [simp del]

declare recurse_calls.simps [simp del]


termination walk_depth
  by (relation "measure size") (auto simp: select_child_items_size)

declare walk_depth.simps [simp del]


section \<open>Evaluating the examples\<close>

lemmas str_defs = ascii_def strip_def lstrip_def rstrip_def isspace_def lower_def lower_cp_def

lemmas dom_defs = elem_def link_def media_def row_def document_def find_tag_def find_all_def
  first_of_def get_text_def select_class_def select_one_class_def find_children_def href_def
  src_def

lemmas lbl_defs = lbl_attempt_def lbl_submission_status_def lbl_grading_status_def
  lbl_time_remaining_def lbl_last_modified_def lbl_grade_def lbl_start_accept_def
  lbl_due_expires_def lbl_available_uk1_def lbl_available_uk2_def lbl_due_uk_def
  lbl_cutoff_uk_def

lemmas assign_defs = parse_assign_soup_def writers_def run_writers_def activity_date_divs_def
  date_rows_def status_table_rows_def feedback_rows_def date_row_step_def set_if_none_def
  status_row_step_def activity_date_step_def files_step_def assign_files_def store_grade_def
  meta0_def date_text_of_def strip_chars_def


section \<open>Order-preserving sets\<close>

lemma first_occ_set: "set (first_occ xs) = set xs"
  by (induction xs) auto

lemma first_occ_distinct: "distinct (first_occ xs)"
  by (induction xs) (auto simp: first_occ_set)

lemma fold_add_url: "fold add_url xs acc = acc @ filter (\<lambda>y. y \<notin> set acc) (first_occ xs)"
proof (induction xs arbitrary: acc)
  case Nil
  show ?case by simp
next
  case (Cons x xs)
  show ?case
  proof (cases "x \<in> set acc")
    case True
    then have "filter (\<lambda>y. y \<notin> set acc) (filter (\<lambda>y. y \<noteq> x) (first_occ xs)) =
               filter (\<lambda>y. y \<notin> set acc) (first_occ xs)"
      by (auto intro: filter_cong)
    then show ?thesis using True Cons.IH[of acc] by (simp add: add_url_def)
  next
    case False
    have "filter (\<lambda>y. y \<notin> set (acc @ [x])) (first_occ xs) =
          filter (\<lambda>y. y \<notin> set acc) (filter (\<lambda>y. y \<noteq> x) (first_occ xs))"
      by (auto intro: filter_cong)
    then show ?thesis using False Cons.IH[of "acc @ [x]"] by (simp add: add_url_def)
  qed
qed

lemma fold_add_url_Nil: "fold add_url xs [] = first_occ xs"
  by (simp add: fold_add_url)

lemma fold_add_url_absorb: "set xs \<subseteq> set acc \<Longrightarrow> fold add_url xs acc = acc"
  by (induction xs) (auto simp: add_url_def)

lemma fold_add_url_set: "set (fold add_url xs acc) = set acc \<union> set xs"
  by (auto simp: fold_add_url first_occ_set)

lemma fold_add_url_concat:
  "fold (\<lambda>r. fold add_url (f r)) rs acc = fold add_url (concat (map f rs)) acc"
  by (induction rs arbitrary: acc) auto


section \<open>What parse_folder_tree returns\<close>

lemma descendants_trans: "d \<in> set (descendants n) \<Longrightarrow> set (descendants d) \<subseteq> set (descendants n)"
proof (induction n)
  case (Text s)
  then show ?case by simp
next
  case (Elem t cl av cs)
  from Elem.prems obtain c where c: "c \<in> set cs" and d: "d = c \<or> d \<in> set (descendants c)"
    by auto
  have "set (descendants c) \<subseteq> set (descendants (Elem t cl av cs))" using c by auto
  moreover have "d \<in> set (descendants c) \<Longrightarrow> set (descendants d) \<subseteq> set (descendants c)"
    using Elem.IH c by blast
  ultimately show ?case using d by blast
qed

lemma kids_descendants: "set (kids n) \<subseteq> set (descendants n)"
  by (cases n) auto

lemma marker_hrefs_mono:
  assumes "d \<in> set (descendants n)"
  shows "set (marker_hrefs d) \<subseteq> set (marker_hrefs n)"
proof -
  have "set (select_marker_anchors d) \<subseteq> set (select_marker_anchors n)"
    using descendants_trans[OF assms] by (auto simp: select_marker_anchors_def)
  then show ?thesis by (auto simp: marker_hrefs_def map_filter_def)
qed

lemma marker_anchor_href:
  "a \<in> set (select_marker_anchors n) \<Longrightarrow> \<exists>h. attr_get href a = Some h \<and> h \<noteq> []"
  by (auto simp: select_marker_anchors_def is_marker_anchor_def marker_def ascii_def
      split: option.splits)

lemma fold_add_href_anchors:
  assumes "\<And>a. a \<in> set as \<Longrightarrow> \<exists>h. attr_get href a = Some h \<and> h \<noteq> []"
  shows "fold add_href as files = fold add_url (map resolve (List.map_filter (attr_get href) as)) files"
  using assms
proof (induction as arbitrary: files)
  case Nil
  show ?case by (simp add: map_filter_simps)
next
  case (Cons a as)
  from Cons.prems[of a] obtain h where h: "attr_get href a = Some h" "h \<noteq> []" by auto
  have step: "add_href a files = add_url (resolve h) files"
    using h by (simp add: add_href_def)
  have "fold add_href as (add_url (resolve h) files) =
        fold add_url (map resolve (List.map_filter (attr_get href) as)) (add_url (resolve h) files)"
    using Cons.IH[of "add_url (resolve h) files"] Cons.prems by simp
  then show ?case using h step by (simp add: map_filter_simps)
qed

lemma fold_add_href: 
  "fold add_href (select_marker_anchors n) files = fold add_url (map resolve (marker_hrefs n)) files"
  unfolding marker_hrefs_def by (rule fold_add_href_anchors) (rule marker_anchor_href)

lemma recurse_eq: "recurse n files = fold add_url (map resolve (marker_hrefs n)) files"
proof (induction n files rule: recurse.induct)
  case (1 n files)
  define fs where "fs = fold add_url (map resolve (marker_hrefs n)) files"
  have keep: "fold recurse cs fs = fs" if "set cs \<subseteq> set (select_child_items n)" for cs
    using that
  proof (induction cs)
    case Nil
    show ?case by simp
  next
    case (Cons c cs)
    have c: "c \<in> set (select_child_items n)" using Cons.prems by simp
    then have "c \<in> set (descendants n)" using select_child_items_sub by blast
    then have "set (map resolve (marker_hrefs c)) \<subseteq> set (map resolve (marker_hrefs n))"
      using marker_hrefs_mono by fastforce
    also have "\<dots> \<subseteq> set fs" by (simp add: fs_def fold_add_url_set)
    finally have "fold add_url (map resolve (marker_hrefs c)) fs = fs"
      by (rule fold_add_url_absorb)
    then have "recurse c fs = fs" using "1.IH"[OF c, of fs] by simp
    then show ?case using Cons by simp
  qed
  have "recurse n files = fold recurse (select_child_items n) fs"
    by (subst recurse.simps) (simp add: fs_def fold_add_href)
  then show ?case using keep[of "select_child_items n"] by (simp add: fs_def)
qed

lemma parse_folder_tree_eq: "parse_folder_tree soup = first_occ (folder_candidates soup)"
proof -
  have "fold recurse rs acc = fold add_url (concat (map (\<lambda>r. map resolve (marker_hrefs r)) rs)) acc"
    for rs acc
    by (induction rs arbitrary: acc) (simp_all add: recurse_eq)
  then show ?thesis
    by (simp add: parse_folder_tree_def folder_candidates_def fold_add_url_Nil)
qed

lemma select_class_sub: "set (select_class c n) \<subseteq> set (descendants n)"
  by (auto simp: select_class_def)

lemma tree_roots_sub: "set (tree_roots t) \<subseteq> set (descendants t)"
  using kids_descendants[of t] select_class_sub[of _ t]
  by (auto simp: tree_roots_def Let_def)

lemma all_roots_sub: "set (all_roots soup) \<subseteq> set (descendants soup)"
proof
  fix r assume "r \<in> set (all_roots soup)"
  then obtain t where t: "t \<in> set (select_class (ascii ''foldertree'') soup)" and r: "r \<in> set (tree_roots t)"
    by (auto simp: all_roots_def)
  have "t \<in> set (descendants soup)" using t select_class_sub by blast
  moreover have "r \<in> set (descendants t)" using r tree_roots_sub by blast
  ultimately show "r \<in> set (descendants soup)" using descendants_trans by blast
qed

lemma folder_candidates_sub: "set (folder_candidates soup) \<subseteq> resolve ` set (marker_hrefs soup)"
proof
  fix u assume "u \<in> set (folder_candidates soup)"
  then obtain r where r: "r \<in> set (all_roots soup)" and u: "u \<in> resolve ` set (marker_hrefs r)"
    by (auto simp: folder_candidates_def)
  have "set (marker_hrefs r) \<subseteq> set (marker_hrefs soup)"
    using r all_roots_sub marker_hrefs_mono by blast
  then show "u \<in> resolve ` set (marker_hrefs soup)" using u by blast
qed

text \<open>
  The list that the walk returns has no duplicates and is no longer than the
  number of distinct targets of the resource-file anchors of the page.
\<close>

lemma parse_folder_tree_bounded:
  "distinct (parse_folder_tree soup) \<and>
   length (parse_folder_tree soup) \<le> card (set (marker_hrefs soup))"
proof -
  have d: "distinct (parse_folder_tree soup)"
    by (simp add: parse_folder_tree_eq first_occ_distinct)
  have "set (parse_folder_tree soup) \<subseteq> resolve ` set (marker_hrefs soup)"
    using folder_candidates_sub by (simp add: parse_folder_tree_eq first_occ_set)
  then have "card (set (parse_folder_tree soup)) \<le> card (resolve ` set (marker_hrefs soup))"
    by (intro card_mono) simp_all
  also have "\<dots> \<le> card (set (marker_hrefs soup))"
    by (intro card_image_le) simp
  finally show ?thesis using d by (simp add: distinct_card)
qed


section \<open>The scan for resource files\<close>

lemma add_if_pluginfile_keep:
  "add_if_pluginfile raw urls = (case scan_keep raw of None \<Rightarrow> urls | Some u \<Rightarrow> add_url u urls)"
  by (auto simp: add_if_pluginfile_def scan_keep_def split: option.splits)

lemma fold_add_if_pluginfile:
  "fold add_if_pluginfile ts urls = fold add_url (List.map_filter scan_keep ts) urls"
  by (induction ts arbitrary: urls) (auto simp: add_if_pluginfile_keep map_filter_simps split: option.splits)

lemma pluginfile_scan_eq: "pluginfile_scan soup = first_occ (scan_candidates soup)"
  by (simp add: pluginfile_scan_def scan_candidates_def fold_add_if_pluginfile fold_add_url_Nil)


section \<open>collect_activity_files\<close>

lemma startswith_iff: "startswith s p \<longleftrightarrow> (\<exists>b. s = p @ b)"
  by (induction s p rule: startswith.induct) auto

lemma contains_iff: "contains s p \<longleftrightarrow> (\<exists>a b. s = a @ p @ b)"
proof (induction s)
  case Nil
  show ?case by auto
next
  case (Cons c cs)
  show ?case
  proof
    assume "contains (c # cs) p"
    then consider "startswith (c # cs) p" | "contains cs p" by auto
    then show "\<exists>a b. c # cs = a @ p @ b"
    proof cases
      case 1
      then obtain b where "c # cs = p @ b" by (auto simp: startswith_iff)
      then have "c # cs = [] @ p @ b" by simp
      then show ?thesis by blast
    next
      case 2
      then obtain a b where "cs = a @ p @ b" using Cons.IH by auto
      then have "c # cs = (c # a) @ p @ b" by simp
      then show ?thesis by blast
    qed
  next
    assume "\<exists>a b. c # cs = a @ p @ b"
    then obtain a b where ab: "c # cs = a @ p @ b" by blast
    show "contains (c # cs) p"
    proof (cases a)
      case Nil
      then have "startswith (c # cs) p" using ab by (auto simp: startswith_iff)
      then show ?thesis by simp
    next
      case (Cons d ds)
      then have "cs = ds @ p @ b" using ab by simp
      then have "contains cs p" using Cons.IH by blast
      then show ?thesis by simp
    qed
  qed
qed

lemma contains_within: "contains s p \<Longrightarrow> contains (a @ s @ b) p"
proof -
  assume "contains s p"
  then obtain x y where "s = x @ p @ y" by (auto simp: contains_iff)
  then have "a @ s @ b = (a @ x) @ p @ (y @ b)" by simp
  then show ?thesis unfolding contains_iff by blast
qed

lemma strip_within: "\<exists>a b. r = a @ strip r @ b"
proof -
  have 1: "r = takeWhile isspace r @ lstrip r" by (simp add: lstrip_def)
  have "lstrip r = take (length (rstrip (lstrip r))) (lstrip r) @ drop (length (rstrip (lstrip r))) (lstrip r)"
    by simp
  then have 2: "lstrip r = strip r @ drop (length (strip r)) (lstrip r)"
    using rstrip_take[of "lstrip r"] by (simp add: strip_def)
  have "r = takeWhile isspace r @ strip r @ drop (length (strip r)) (lstrip r)"
    using 1 2 by metis
  then show ?thesis by blast
qed

lemma contains_strip: "contains (strip r) p \<Longrightarrow> contains r p"
  using strip_within[of r] contains_within[of "strip r" p] by metis

lemma base_marker: "contains (MOODLE_BASE @ h) marker \<Longrightarrow> contains h marker"
  by (simp add: MOODLE_BASE_def marker_def ascii_def)

lemma resolve_marker: "contains (resolve h) marker \<Longrightarrow> contains h marker"
  by (auto simp: resolve_def base_marker split: if_splits)

lemma scan_keep_no_marker:
  assumes "\<And>r. raw = Some r \<Longrightarrow> \<not> contains r marker"
  shows "scan_keep raw = None"
proof (cases raw)
  case None
  then show ?thesis by (simp add: scan_keep_def)
next
  case (Some r)
  then have "\<not> contains r marker" by (rule assms)
  then have "\<not> contains (resolve (strip r)) marker"
    using resolve_marker contains_strip by blast
  then show ?thesis using Some by (simp add: scan_keep_def)
qed

lemma map_filter_none: "(\<And>x. x \<in> set xs \<Longrightarrow> f x = None) \<Longrightarrow> List.map_filter f xs = []"
  by (induction xs) (simp_all add: map_filter_simps)

lemma first_link_find: "first_link as = map_option resolved_target (List.find usable as)"
  by (induction as) (auto simp: usable_def resolved_target_def split: option.splits)

lemma subseq_concat_map:
  "(\<And>x. x \<in> set xs \<Longrightarrow> subseq (f x) (g x)) \<Longrightarrow> subseq (concat (map f xs)) (concat (map g xs))"
  by (induction xs) (auto intro: list_emb_append_mono)

lemma select_under_subseq: "subseq (select_under cs t b n) (filter (is_tag t) (descendants n))"
proof (induction n arbitrary: b)
  case (Text s)
  show ?case by simp
next
  case (Elem t' cl av ks)
  define b' where "b' = (b \<or> (\<exists>c \<in> set cs. c \<in> set cl))"
  have "subseq ((if b' \<and> is_tag t k then [k] else []) @ select_under cs t b' k)
               (filter (is_tag t) (k # descendants k))" if "k \<in> set ks" for k
  proof -
    have "subseq (if b' \<and> is_tag t k then [k] else []) (if is_tag t k then [k] else [])"
      by simp
    moreover have "subseq (select_under cs t b' k) (filter (is_tag t) (descendants k))"
      using Elem.IH[OF that] .
    ultimately have "subseq ((if b' \<and> is_tag t k then [k] else []) @ select_under cs t b' k)
       ((if is_tag t k then [k] else []) @ filter (is_tag t) (descendants k))"
      by (rule list_emb_append_mono)
    moreover have "filter (is_tag t) (k # descendants k) =
        (if is_tag t k then [k] else []) @ filter (is_tag t) (descendants k)"
      by simp
    ultimately show ?thesis by (simp only:)
  qed
  then have "subseq (concat (map (\<lambda>k. (if b' \<and> is_tag t k then [k] else []) @ select_under cs t b' k) ks))
       (concat (map (\<lambda>k. filter (is_tag t) (k # descendants k)) ks))"
    by (rule subseq_concat_map)
  then show ?case by (simp add: b'_def filter_concat comp_def)
qed

lemma candidates_subseq: "subseq (candidates soup) (find_all [ascii ''a''] soup)"
  using select_under_subseq[of fallback_regions "ascii ''a''" False soup]
  by (simp add: candidates_def find_all_def)

lemma http_nonempty: "startswith u (ascii ''http'') \<Longrightarrow> u \<noteq> [] \<and> u \<noteq> [35]"
  by (cases u) (auto simp: ascii_def)

text \<open>
  Claim C3, as amended. \<open>collect_activity_files\<close> returns the empty list, without
  opening any page, for every unreachable activity URL (empty, \<open>#\<close>, or not starting
  with \<open>http\<close>), whether or not it contains the resource-file marker; and it returns
  the one-element list of the URL itself, without opening any page, for every
  URL that starts with \<open>http\<close> and contains the marker.
\<close>

theorem collect_guards:
  "(activity_url = [] \<or> activity_url = [35] \<or> \<not> startswith activity_url (ascii ''http'') \<longrightarrow>
      collect_activity_files page activity_url = ([], [])) \<and>
   (startswith activity_url (ascii ''http'') \<and> contains activity_url marker \<longrightarrow>
      collect_activity_files page activity_url = ([activity_url], []))"
  using http_nonempty[of activity_url] by (auto simp: collect_activity_files_def)

text \<open>
  Claim C5, as amended. If the opened activity page has no folder-tree widget and
  no anchor or media tag whose target contains the resource-file marker, then
  \<open>collect_activity_files\<close> returns the one-element list with the resolved target
  of the first anchor, in document order, that lies inside any of the regions
  \<open>.resourceworkaround\<close>, \<open>.activityinstance\<close>, \<open>.region-main\<close> and has a non-empty
  target that is no placeholder; and the one-element list with the activity's
  own URL if there is no such anchor.
\<close>

theorem collect_fallthrough:
  assumes "startswith activity_url (ascii ''http'')"
    and "\<not> contains activity_url marker"
    and "page activity_url = Some soup"
    and "select_one_class (ascii ''foldertree'') soup = None"
    and "\<forall>a \<in> set (find_all [ascii ''a''] soup). \<forall>h. attr_get href a = Some h \<longrightarrow> \<not> contains h marker"
    and "\<forall>t \<in> set (find_all media_tags soup). \<forall>s. attr_get src t = Some s \<longrightarrow> \<not> contains s marker"
  shows "fst (collect_activity_files page activity_url) =
           (case List.find usable (candidates soup) of
              None \<Rightarrow> [activity_url]
            | Some a \<Rightarrow> [resolved_target a]) \<and>
         subseq (candidates soup) (find_all [ascii ''a''] soup)"
proof -
  have "scan_keep raw = None" if "raw \<in> set (scan_targets soup)" for raw
    using that assms(5,6) by (intro scan_keep_no_marker) (auto simp: scan_targets_def)
  then have "scan_candidates soup = []"
    unfolding scan_candidates_def by (rule map_filter_none)
  then have scan: "pluginfile_scan soup = []"
    by (simp add: pluginfile_scan_eq)
  have "collect_activity_files page activity_url =
          (case first_link (candidates soup) of
             Some h \<Rightarrow> ([h], [activity_url])
           | None \<Rightarrow> ([activity_url], [activity_url]))"
    using assms(1-4) http_nonempty[OF assms(1)] scan
    by (simp add: collect_activity_files_def)
  then show ?thesis
    using candidates_subseq by (auto simp: first_link_find split: option.splits)
qed


lemmas collect_defs = collect_activity_files_def serves_def candidates_def fallback_regions_def
  pluginfile_scan_def scan_targets_def add_if_pluginfile_def add_url_def placeholder_def
  resolve_def MOODLE_BASE_def marker_def media_tags_def parse_folder_tree_def all_roots_def
  tree_roots_def

lemma w3a: "collect_activity_files (serves ''https://moodle.example/a'' plain_page) [35] = ([], [])"
  by (simp add: collect_activity_files_def)

text \<open>The theorem at the placeholder \<open>#\<close> and at a direct resource-file URL.\<close>

theorem collect_guards_witness:
  "collect_activity_files (serves ''https://moodle.example/a'' plain_page) [35] = ([], []) \<and>
   collect_activity_files (serves ''https://moodle.example/a'' plain_page)
     (ascii ''https://moodle.elct.lnu.edu.ua/pluginfile.php/5/a.pdf'') =
     ([ascii ''https://moodle.elct.lnu.edu.ua/pluginfile.php/5/a.pdf''], [])"
proof -
  have "startswith (ascii ''https://moodle.elct.lnu.edu.ua/pluginfile.php/5/a.pdf'') (ascii ''http'')"
    by (simp add: ascii_def)
  moreover have "contains (ascii ''https://moodle.elct.lnu.edu.ua/pluginfile.php/5/a.pdf'') marker"
    by (simp add: ascii_def marker_def)
  ultimately show ?thesis
    using collect_guards[of "[35]" "serves ''https://moodle.example/a'' plain_page"]
      collect_guards[of "ascii ''https://moodle.elct.lnu.edu.ua/pluginfile.php/5/a.pdf''"
        "serves ''https://moodle.example/a'' plain_page"]
    by blast
qed

text \<open>
  Claim C3 as stated fails for a URL that contains the marker and does not start
  with \<open>http\<close>: the reachability guard comes first and the result is empty.
\<close>

theorem marker_url_without_http:
  "contains (ascii ''pluginfile.php/7/notes.pdf'') marker \<and>
   collect_activity_files (serves ''https://moodle.example/a'' plain_page)
     (ascii ''pluginfile.php/7/notes.pdf'') = ([], [])"
  by (simp add: collect_activity_files_def ascii_def marker_def)

lemma workaround_candidates:
  "candidates workaround_page =
     [link ''/course/view.php?id=5'', link ''https://files.example.org/notes.pdf'']"
  by (simp add: workaround_page_def candidates_def fallback_regions_def dom_defs ascii_def)

lemma workaround_anchors:
  "find_all [ascii ''a''] workaround_page =
     [link ''/course/view.php?id=5'', link ''https://files.example.org/notes.pdf'']"
  by (simp add: workaround_page_def dom_defs ascii_def)

lemma workaround_media: "find_all media_tags workaround_page = []"
  by (simp add: workaround_page_def media_tags_def dom_defs ascii_def)

lemma workaround_no_tree: "select_one_class (ascii ''foldertree'') workaround_page = None"
  by (simp add: workaround_page_def dom_defs ascii_def)

text \<open>The theorem on the example page.\<close>

theorem collect_fallthrough_witness:
  "fst (collect_activity_files (serves ''https://moodle.example/mod/resource/view.php?id=1'' workaround_page)
        (ascii ''https://moodle.example/mod/resource/view.php?id=1'')) =
     [ascii ''https://moodle.elct.lnu.edu.ua/course/view.php?id=5'']"
proof -
  have 1: "startswith (ascii ''https://moodle.example/mod/resource/view.php?id=1'') (ascii ''http'')"
    by (simp add: ascii_def)
  have 2: "\<not> contains (ascii ''https://moodle.example/mod/resource/view.php?id=1'') marker"
    by (simp add: ascii_def marker_def)
  have 3: "serves ''https://moodle.example/mod/resource/view.php?id=1'' workaround_page
             (ascii ''https://moodle.example/mod/resource/view.php?id=1'') = Some workaround_page"
    by (simp add: serves_def)
  have 5: "\<forall>a \<in> set (find_all [ascii ''a''] workaround_page).
             \<forall>h. attr_get href a = Some h \<longrightarrow> \<not> contains h marker"
    unfolding workaround_anchors by (simp add: link_def href_def ascii_def marker_def)
  have 6: "\<forall>t \<in> set (find_all media_tags workaround_page).
             \<forall>s. attr_get src t = Some s \<longrightarrow> \<not> contains s marker"
    unfolding workaround_media by simp
  have 7: "(case List.find usable (candidates workaround_page) of
              None \<Rightarrow> [ascii ''https://moodle.example/mod/resource/view.php?id=1'']
            | Some a \<Rightarrow> [resolved_target a]) =
           [ascii ''https://moodle.elct.lnu.edu.ua/course/view.php?id=5'']"
    unfolding workaround_candidates
    by (simp add: usable_def resolved_target_def link_def href_def
        placeholder_def resolve_def MOODLE_BASE_def str_defs)
  show ?thesis
    using collect_fallthrough[of "ascii ''https://moodle.example/mod/resource/view.php?id=1''"
        "serves ''https://moodle.example/mod/resource/view.php?id=1'' workaround_page"
        workaround_page, OF 1 2 3 workaround_no_tree 5 6] 7
    by simp
qed

text \<open>
  Claim C5 as stated fails where the order of the regions differs from the order
  of the document: the navigation link of the main region comes first in the
  page and is returned, although the \<open>.resourceworkaround\<close> region, first in the
  selector list, holds a link.
\<close>

theorem region_order_not_followed:
  "fst (collect_activity_files (serves ''https://moodle.example/mod/resource/view.php?id=1'' workaround_page)
        (ascii ''https://moodle.example/mod/resource/view.php?id=1'')) =
     [ascii ''https://moodle.elct.lnu.edu.ua/course/view.php?id=5''] \<and>
   first_link (candidates_by_region workaround_page) = Some (ascii ''https://files.example.org/notes.pdf'')"
proof -
  have "fst (collect_activity_files (serves ''https://moodle.example/mod/resource/view.php?id=1'' workaround_page)
        (ascii ''https://moodle.example/mod/resource/view.php?id=1'')) =
     [ascii ''https://moodle.elct.lnu.edu.ua/course/view.php?id=5'']"
    by (simp add: collect_defs workaround_page_def dom_defs str_defs)
  moreover have "first_link (candidates_by_region workaround_page) =
      Some (ascii ''https://files.example.org/notes.pdf'')"
    by (simp add: candidates_by_region_def fallback_regions_def workaround_page_def placeholder_def
        resolve_def dom_defs str_defs)
  ultimately show ?thesis by simp
qed


section \<open>The URL lists\<close>

lemma assign_files_eq: "assign_files soup = first_occ (map resolve (marker_hrefs soup))"
  by (simp add: assign_files_def fold_add_href fold_add_url_Nil)

text \<open>
  Claim C2, as amended. For every page, each of the three URL collections
  returns a list without duplicates that keeps the first occurrence of every URL
  in the order in which the operation scans its candidates: for
  \<open>parse_folder_tree\<close> the resource links below each root item, root after root;
  for the scan in \<open>collect_activity_files\<close> the targets of all anchors and then
  the targets of all media tags; for the attached files of \<open>parse_assign_page\<close>
  the resource links of the page in document order.
\<close>

theorem url_lists_are_ordered_sets:
  "parse_folder_tree soup = first_occ (folder_candidates soup) \<and>
   distinct (parse_folder_tree soup) \<and>
   pluginfile_scan soup = first_occ (scan_candidates soup) \<and>
   distinct (pluginfile_scan soup) \<and>
   assign_files soup = first_occ (map resolve (marker_hrefs soup)) \<and>
   distinct (assign_files soup)"
  by (simp add: parse_folder_tree_eq pluginfile_scan_eq assign_files_eq first_occ_distinct)

text \<open>
  Claim C2 as stated fails for the order of the document: an image that stands
  before a link in the page comes after it in the list.
\<close>

theorem scan_not_in_document_order:
  "pluginfile_scan media_first_page =
     [ascii ''https://moodle.elct.lnu.edu.ua/pluginfile.php/3/notes.pdf'',
      ascii ''https://moodle.elct.lnu.edu.ua/pluginfile.php/3/figure.png''] \<and>
   first_occ (document_order_candidates media_first_page) =
     [ascii ''https://moodle.elct.lnu.edu.ua/pluginfile.php/3/figure.png'',
      ascii ''https://moodle.elct.lnu.edu.ua/pluginfile.php/3/notes.pdf'']"
proof -
  have "pluginfile_scan media_first_page =
     [ascii ''https://moodle.elct.lnu.edu.ua/pluginfile.php/3/notes.pdf'',
      ascii ''https://moodle.elct.lnu.edu.ua/pluginfile.php/3/figure.png'']"
    by (simp add: media_first_page_def collect_defs dom_defs str_defs)
  moreover have "first_occ (document_order_candidates media_first_page) =
     [ascii ''https://moodle.elct.lnu.edu.ua/pluginfile.php/3/figure.png'',
      ascii ''https://moodle.elct.lnu.edu.ua/pluginfile.php/3/notes.pdf'']"
    by (simp add: media_first_page_def document_order_candidates_def scan_keep_def target_of_def
        map_filter_simps collect_defs dom_defs str_defs)
  ultimately show ?thesis by simp
qed

lemmas item_defs = root_item_def mid_item_def leaf_item_def nested_folder_page_def

text \<open>
  Claim C4 on the nested example tree. The only tree item one level below the
  root item is the middle item, but the selector of \<open>recurse\<close> also selects the
  leaf item two levels down, so the walk calls \<open>recurse\<close> on the leaf item twice:
  once from the middle item and once from the root item.
\<close>

theorem recurse_revisits_nested_items:
  "direct_child_items root_item = [mid_item] \<and>
   select_child_items root_item = [mid_item, leaf_item] \<and>
   folder_calls nested_folder_page = [root_item, mid_item, leaf_item, leaf_item]"
proof -
  have 1: "direct_child_items root_item = [mid_item]"
    by (simp add: direct_child_items_def item_defs dom_defs ascii_def)
  have 2: "select_child_items root_item = [mid_item, leaf_item]"
    by (simp add: select_child_items_def item_defs dom_defs ascii_def)
  have 3: "select_child_items mid_item = [leaf_item]"
    by (simp add: select_child_items_def item_defs dom_defs ascii_def)
  have 4: "select_child_items leaf_item = []"
    by (simp add: select_child_items_def item_defs dom_defs ascii_def)
  have 5: "all_roots nested_folder_page = [root_item]"
    by (simp add: all_roots_def tree_roots_def item_defs dom_defs ascii_def)
  have l: "recurse_calls leaf_item = [leaf_item]"
    by (subst recurse_calls.simps) (simp add: 4)
  have m: "recurse_calls mid_item = [mid_item, leaf_item]"
    by (subst recurse_calls.simps) (simp add: 3 l)
  have r: "recurse_calls root_item = [root_item, mid_item, leaf_item, leaf_item]"
    by (subst recurse_calls.simps) (simp add: 2 l m)
  show ?thesis using 1 2 by (simp add: folder_calls_def 5 r)
qed


section \<open>The walk under the recursion limit\<close>

lemma fold_max_le: "fold max xs a \<le> d \<longleftrightarrow> a \<le> d \<and> (\<forall>x \<in> set xs. x \<le> (d::nat))"
  by (induction xs arbitrary: a) auto

lemma walk_depth_children:
  "walk_depth n \<le> Suc d \<longleftrightarrow> (\<forall>c \<in> set (select_child_items n). walk_depth c \<le> d)"
  by (subst walk_depth.simps) (simp add: fold_max_le)

lemma walk_depth_pos: "0 < walk_depth n"
  by (subst walk_depth.simps) simp

lemma limited_error_stays:
  "fold (\<lambda>c r. case r of Inl e \<Rightarrow> Inl e | Inr fs \<Rightarrow> f c fs) cs (Inl e) = Inl e"
  by (induction cs) simp_all

lemma recurse_limited_returns:
  "walk_depth n \<le> d \<Longrightarrow> recurse_limited d n files = Inr (recurse n files)"
proof (induction d arbitrary: n files)
  case 0
  then show ?case using walk_depth_pos[of n] by simp
next
  case (Suc d)
  have ch: "\<forall>c \<in> set (select_child_items n). walk_depth c \<le> d"
    using Suc.prems by (simp add: walk_depth_children)
  have "fold (\<lambda>c r. case r of Inl e \<Rightarrow> Inl e | Inr fs \<Rightarrow> recurse_limited d c fs) cs (Inr fs) =
        Inr (fold recurse cs fs)" if "set cs \<subseteq> set (select_child_items n)" for cs fs
    using that
  proof (induction cs arbitrary: fs)
    case Nil
    show ?case by simp
  next
    case (Cons c cs)
    have "recurse_limited d c fs = Inr (recurse c fs)"
      using Cons.prems ch by (intro Suc.IH) auto
    then show ?case using Cons by simp
  qed
  then show ?case by (subst recurse.simps) simp
qed

lemma recurse_limited_raises:
  "d < walk_depth n \<Longrightarrow> recurse_limited d n files = Inl RecursionError"
proof (induction d arbitrary: n files)
  case 0
  show ?case by simp
next
  case (Suc d)
  have "\<not> walk_depth n \<le> Suc d" using Suc.prems by simp
  then obtain c where c: "c \<in> set (select_child_items n)" "d < walk_depth c"
    by (auto simp: walk_depth_children not_le)
  have "fold (\<lambda>c r. case r of Inl e \<Rightarrow> Inl e | Inr fs \<Rightarrow> recurse_limited d c fs) cs r =
        Inl RecursionError" if "c \<in> set cs" for cs r
    using that
  proof (induction cs arbitrary: r)
    case Nil
    then show ?case by simp
  next
    case (Cons x xs)
    show ?case
    proof (cases r)
      case (Inl e)
      then have "r = Inl RecursionError" by (cases e) simp
      then show ?thesis by (simp add: limited_error_stays)
    next
      case (Inr fs)
      show ?thesis
      proof (cases "x = c")
        case True
        then have "recurse_limited d x fs = Inl RecursionError"
          using Suc.IH[OF c(2)] by simp
        then show ?thesis using Inr by (simp add: limited_error_stays)
      next
        case False
        then have "c \<in> set xs" using Cons.prems by simp
        then show ?thesis using Cons.IH by simp
      qed
    qed
  qed
  then show ?case using c(1) by simp
qed

lemma parse_limited_returns:
  assumes "\<forall>r \<in> set (all_roots soup). walk_depth r \<le> limit"
  shows "parse_folder_tree_limited limit soup = Inr (parse_folder_tree soup)"
proof -
  have "fold (\<lambda>r res. case res of Inl e \<Rightarrow> Inl e | Inr fs \<Rightarrow> recurse_limited limit r fs) rs (Inr fs) =
        Inr (fold recurse rs fs)" if "set rs \<subseteq> set (all_roots soup)" for rs fs
    using that
  proof (induction rs arbitrary: fs)
    case Nil
    show ?case by simp
  next
    case (Cons r rs)
    have "recurse_limited limit r fs = Inr (recurse r fs)"
      using Cons.prems assms by (intro recurse_limited_returns) auto
    then show ?case using Cons by simp
  qed
  then show ?thesis by (simp add: parse_folder_tree_limited_def parse_folder_tree_def)
qed

lemma parse_limited_raises:
  assumes "r \<in> set (all_roots soup)" "limit < walk_depth r"
  shows "parse_folder_tree_limited limit soup = Inl RecursionError"
proof -
  have "fold (\<lambda>r res. case res of Inl e \<Rightarrow> Inl e | Inr fs \<Rightarrow> recurse_limited limit r fs) rs res =
        Inl RecursionError" if "r \<in> set rs" for rs res
    using that
  proof (induction rs arbitrary: res)
    case Nil
    then show ?case by simp
  next
    case (Cons x xs)
    show ?case
    proof (cases res)
      case (Inl e)
      then have "res = Inl RecursionError" by (cases e) simp
      then show ?thesis by (simp add: limited_error_stays)
    next
      case (Inr fs)
      show ?thesis
      proof (cases "x = r")
        case True
        then have "recurse_limited limit x fs = Inl RecursionError"
          using recurse_limited_raises[OF assms(2)] by simp
        then show ?thesis using Inr by (simp add: limited_error_stays)
      next
        case False
        then have "r \<in> set xs" using Cons.prems by simp
        then show ?thesis using Cons.IH by simp
      qed
    qed
  qed
  then show ?thesis using assms(1) by (simp add: parse_folder_tree_limited_def)
qed


lemma nested_items_is_item:
  "is_tag (ascii ''div'') (nested_items k) \<and> has_class (ascii ''ygtvitem'') (nested_items k)"
  by (cases k) simp_all

lemma nested_items_descendants:
  "descendants_of (nested_items (Suc k)) =
     (nested_items (Suc k), Elem (ascii ''div'') [ascii ''ygtvchildren''] [] [nested_items k]) #
     (Elem (ascii ''div'') [ascii ''ygtvchildren''] [] [nested_items k], nested_items k) #
     descendants_of (nested_items k)"
  by simp

lemma nested_items_select:
  "select_child_items (nested_items (Suc k)) = nested_items k # select_child_items (nested_items k)"
proof -
  have 1: "\<not> has_class (ascii ''ygtvchildren'') (nested_items (Suc k))"
    by (simp add: ascii_def)
  have 2: "has_class (ascii ''ygtvchildren'') (Elem (ascii ''div'') [ascii ''ygtvchildren''] [] [nested_items k])"
    by simp
  have 3: "has_class (ascii ''ygtvitem'') (nested_items k)"
    using nested_items_is_item by blast
  show ?thesis
    unfolding select_child_items_def nested_items_descendants
    using 1 2 3 by (simp del: nested_items.simps has_class.simps)
qed

lemma nested_items_child:
  "nested_items k \<in> set (select_child_items (nested_items (Suc k)))"
  by (simp only: nested_items_select list.set_intros)

lemma walk_depth_child:
  assumes "c \<in> set (select_child_items n)"
  shows "walk_depth c < walk_depth n"
proof -
  have "walk_depth n \<le> Suc (walk_depth n - 1)" by simp
  then have "walk_depth c \<le> walk_depth n - 1"
    using assms walk_depth_children[of n "walk_depth n - 1"] by blast
  then show ?thesis using walk_depth_pos[of n] by linarith
qed

lemma nested_items_depth: "k < walk_depth (nested_items k)"
proof (induction k)
  case 0
  show ?case by (rule walk_depth_pos)
next
  case (Suc k)
  show ?case using Suc walk_depth_child[OF nested_items_child[of k]] by linarith
qed

lemma deep_page_root: "nested_items k \<in> set (all_roots (deep_folder_page k))"
proof -
  let ?tree = "Elem (ascii ''div'') [ascii ''foldertree''] [] [nested_items k]"
  have "?tree \<in> set (select_class (ascii ''foldertree'') (deep_folder_page k))"
    by (simp add: deep_folder_page_def document_def select_class_def)
  moreover have "nested_items k \<in> set (tree_roots ?tree)"
    using nested_items_is_item[of k] by (simp add: tree_roots_def Let_def)
  ultimately show ?thesis unfolding all_roots_def by auto
qed

lemma deep_page_raises:
  "limit \<le> k \<Longrightarrow> parse_folder_tree_limited limit (deep_folder_page k) = Inl RecursionError"
  using parse_limited_raises[OF deep_page_root[of k], of limit] nested_items_depth[of k] by simp


section \<open>parse_folder_tree and deep trees\<close>

lemma nested_page_roots: "all_roots nested_folder_page = [root_item]"
  by (simp add: all_roots_def tree_roots_def item_defs dom_defs ascii_def)

lemma root_item_depth: "walk_depth root_item = 3"
proof -
  have 2: "select_child_items root_item = [mid_item, leaf_item]"
    by (simp add: select_child_items_def item_defs dom_defs ascii_def)
  have 3: "select_child_items mid_item = [leaf_item]"
    by (simp add: select_child_items_def item_defs dom_defs ascii_def)
  have 4: "select_child_items leaf_item = []"
    by (simp add: select_child_items_def item_defs dom_defs ascii_def)
  have l: "walk_depth leaf_item = 1"
    by (subst walk_depth.simps) (simp add: 4)
  have m: "walk_depth mid_item = 2"
    by (subst walk_depth.simps) (simp add: 3 l)
  show ?thesis
    by (subst walk_depth.simps) (simp add: 2 l m)
qed

lemma nested_page_files:
  "parse_folder_tree nested_folder_page =
     [ascii ''https://moodle.elct.lnu.edu.ua/pluginfile.php/9/a.pdf'',
      ascii ''https://moodle.elct.lnu.edu.ua/pluginfile.php/9/b.pdf'',
      ascii ''https://moodle.elct.lnu.edu.ua/pluginfile.php/9/c.pdf'']"
  unfolding parse_folder_tree_eq folder_candidates_def nested_page_roots
  by (simp add: marker_hrefs_def select_marker_anchors_def is_marker_anchor_def map_filter_simps
      resolve_def MOODLE_BASE_def marker_def item_defs dom_defs ascii_def)

text \<open>
  Claim C9, as amended. The walk of \<open>parse_folder_tree\<close> ends on every page. When
  no root item needs more nested calls of \<open>recurse\<close> than the interpreter allows,
  \<open>parse_folder_tree\<close> returns a list without duplicates whose length is at most
  the number of distinct targets of the resource-file anchors of the page; when
  a root item needs more, it raises \<open>RecursionError\<close> and returns no list.
\<close>

theorem parse_folder_tree_within_limit:
  "((\<forall>r \<in> set (all_roots soup). walk_depth r \<le> limit) \<longrightarrow>
      parse_folder_tree_limited limit soup = Inr (parse_folder_tree soup)) \<and>
   ((\<exists>r \<in> set (all_roots soup). limit < walk_depth r) \<longrightarrow>
      parse_folder_tree_limited limit soup = Inl RecursionError) \<and>
   distinct (parse_folder_tree soup) \<and>
   length (parse_folder_tree soup) \<le> card (set (marker_hrefs soup))"
  using parse_limited_returns[of soup limit] parse_limited_raises[of _ soup limit]
    parse_folder_tree_bounded[of soup]
  by blast

text \<open>
  The example tree of three nested items needs three nested calls: the walk
  returns its three links under a limit of 1000 and raises under a limit of 2.
\<close>

theorem parse_folder_tree_within_limit_witness:
  "parse_folder_tree_limited 1000 nested_folder_page =
     Inr [ascii ''https://moodle.elct.lnu.edu.ua/pluginfile.php/9/a.pdf'',
          ascii ''https://moodle.elct.lnu.edu.ua/pluginfile.php/9/b.pdf'',
          ascii ''https://moodle.elct.lnu.edu.ua/pluginfile.php/9/c.pdf''] \<and>
   parse_folder_tree_limited 2 nested_folder_page = Inl RecursionError"
proof -
  have a: "\<forall>r \<in> set (all_roots nested_folder_page). walk_depth r \<le> 1000"
    by (simp add: nested_page_roots root_item_depth)
  have b: "\<exists>r \<in> set (all_roots nested_folder_page). 2 < walk_depth r"
    by (simp add: nested_page_roots root_item_depth)
  show ?thesis
    using parse_folder_tree_within_limit[of nested_folder_page 1000]
      parse_folder_tree_within_limit[of nested_folder_page 2] a b nested_page_files
    by simp
qed

text \<open>
  Claim C9 as stated fails for a deep tree: on a chain of 1001 nested items the
  walk needs 1001 nested calls of \<open>recurse\<close>, more than the default recursion limit
  of 1000 allows, and raises \<open>RecursionError\<close>.
\<close>

theorem deep_tree_raises:
  "parse_folder_tree_limited 1000 (deep_folder_page 1000) = Inl RecursionError"
  by (rule deep_page_raises) simp

section \<open>The writes of parse_assign_page\<close>

lemma run_writers_append: "run_writers (ws1 @ ws2) m = run_writers ws2 (run_writers ws1 m)"
  by (simp add: run_writers_def)

lemma run_writers_map: "run_writers (map f xs) m = fold f xs m"
  by (induction xs arbitrary: m) (simp_all add: run_writers_def)

lemma parse_assign_soup_writers: "parse_assign_soup flt soup = run_writers (writers flt soup) meta0"
  by (simp add: parse_assign_soup_def writers_def run_writers_append run_writers_map Let_def)
    (simp add: run_writers_def)

lemma set_if_none_keeps: "m k \<noteq> Some PNone \<Longrightarrow> set_if_none b k' v m k = m k"
  by (auto simp: set_if_none_def)

lemma activity_date_step_keeps:
  "m k \<noteq> Some PNone \<Longrightarrow> activity_date_step d m k = m k"
  by (auto simp: activity_date_step_def split: option.splits)

lemma date_row_step_keeps:
  "m k \<noteq> Some PNone \<Longrightarrow> date_row_step r m k = m k"
  by (simp add: date_row_step_def Let_def set_if_none_keeps)

lemma status_row_step_keeps:
  "k \<in> date_fields \<Longrightarrow> status_row_step r m k = m k"
  by (auto simp: status_row_step_def date_fields_def split: option.splits)

lemma files_step_keeps: "k \<noteq> ''files'' \<Longrightarrow> files_step soup m k = m k"
  by (simp add: files_step_def)

lemma store_grade_keeps:
  "k \<notin> {''grade_text'', ''grade_raw'', ''grade_max''} \<Longrightarrow> store_grade flt g m k = m k"
  by (auto simp: store_grade_def split: list.splits)

lemma grade_loop_cell:
  "grade_loop flt rows m = (case grade_cell rows of None \<Rightarrow> m | Some g \<Rightarrow> store_grade flt g m)"
  by (induction rows) (auto split: option.splits)

lemma grade_loop_keeps:
  "k \<notin> {''grade_text'', ''grade_raw'', ''grade_max''} \<Longrightarrow> grade_loop flt rows m k = m k"
  by (simp add: grade_loop_cell store_grade_keeps split: option.splits)

lemma writer_keeps:
  assumes "w \<in> set (writers flt soup)" "k \<in> date_fields" "m k \<noteq> Some PNone"
  shows "w m k = m k"
proof -
  have k: "k \<noteq> ''files''" "k \<notin> {''grade_text'', ''grade_raw'', ''grade_max''}"
    using assms(2) by (auto simp: date_fields_def)
  from assms(1) consider
      d where "w = activity_date_step d"
    | r where "w = date_row_step r"
    | r where "w = status_row_step r"
    | "w = files_step soup"
    | "w = grade_loop flt (feedback_rows soup)"
    by (auto simp: writers_def)
  then show ?thesis
  proof cases
    case 1 then show ?thesis using assms(3) by (simp add: activity_date_step_keeps)
  next
    case 2 then show ?thesis using assms(3) by (simp add: date_row_step_keeps)
  next
    case 3 then show ?thesis using assms(2) by (simp add: status_row_step_keeps)
  next
    case 4 then show ?thesis using k(1) by (simp add: files_step_keeps)
  next
    case 5 then show ?thesis using grade_loop_keeps[OF k(2)] by simp
  qed
qed

lemma run_writers_keeps:
  assumes "set ws \<subseteq> set (writers flt soup)" "k \<in> date_fields" "m k = Some (PStr v)"
  shows "run_writers ws m k = Some (PStr v)"
  using assms
proof (induction ws arbitrary: m)
  case Nil
  then show ?case by (simp add: run_writers_def)
next
  case (Cons w ws)
  have "w m k = m k"
    using Cons.prems by (intro writer_keeps[of w flt soup k m]) auto
  then have "w m k = Some (PStr v)" using Cons.prems by simp
  then have "run_writers ws (w m) k = Some (PStr v)"
    using Cons.IH[of "w m"] Cons.prems by simp
  then show ?case by (simp add: run_writers_def)
qed


section \<open>Navigation failure\<close>

text \<open>
  Claim C8. If opening the assignment URL raises, \<open>parse_assign_page\<close> returns the
  empty dictionary: every field read from it with \<open>get\<close> is \<open>None\<close>, the caller's
  list of files to download is empty, and no exception reaches the caller (the
  result is the dictionary).
\<close>

theorem navigation_failure_gives_empty_record:
  assumes "page url = None"
  shows "parse_assign_page flt page url = Map.empty \<and>
         (\<forall>k. dict_get (parse_assign_page flt page url) k = PNone) \<and>
         urls_to_download (parse_assign_page flt page url) = []"
  using assms by (simp add: parse_assign_page_def dict_get_def urls_to_download_def)

lemma serves_other: "serves ''https://moodle.example/a'' plain_page (ascii ''https://moodle.example/b'') = None"
  by (simp add: serves_def ascii_def)

theorem navigation_failure_gives_empty_record_witness:
  "serves ''https://moodle.example/a'' plain_page (ascii ''https://moodle.example/b'') = None \<and>
   parse_assign_page dec_float (serves ''https://moodle.example/a'' plain_page)
     (ascii ''https://moodle.example/b'') = Map.empty \<and>
   dict_get (parse_assign_page dec_float (serves ''https://moodle.example/a'' plain_page)
     (ascii ''https://moodle.example/b'')) ''files'' = PNone"
  using navigation_failure_gives_empty_record[of "serves ''https://moodle.example/a'' plain_page"
      "ascii ''https://moodle.example/b''" dec_float] serves_other by blast

section \<open>The grade\<close>

lemma fold_keeps: "(\<And>x m. f x m k = m k) \<Longrightarrow> fold f xs m k = m k"
  by (induction xs arbitrary: m) simp_all

lemma activity_date_step_other:
  "k \<notin> {''start_at'', ''due_at''} \<Longrightarrow> activity_date_step d m k = m k"
  by (auto simp: activity_date_step_def split: option.splits)

lemma date_row_step_other: "k \<notin> date_fields \<Longrightarrow> date_row_step r m k = m k"
  by (auto simp: date_row_step_def Let_def set_if_none_def date_fields_def)

lemma status_row_step_other:
  "k \<notin> {''attempt'', ''submission_status'', ''grading_status'', ''time_remaining'', ''last_modified''} \<Longrightarrow>
   status_row_step r m k = m k"
  by (auto simp: status_row_step_def split: option.splits)

lemma before_grade:
  assumes "k \<in> grade_fields"
  shows "files_step soup (fold status_row_step xs (fold date_row_step ys
           (fold activity_date_step zs meta0))) k = Some PNone"
proof -
  have k: "k \<noteq> ''files''" "k \<notin> {''start_at'', ''due_at''}" "k \<notin> date_fields"
    "k \<notin> {''attempt'', ''submission_status'', ''grading_status'', ''time_remaining'', ''last_modified''}"
    using assms by (auto simp: grade_fields_def date_fields_def)
  have "files_step soup (fold status_row_step xs (fold date_row_step ys
           (fold activity_date_step zs meta0))) k = meta0 k"
    using k by (simp add: files_step_keeps fold_keeps status_row_step_other date_row_step_other
        activity_date_step_other)
  also have "\<dots> = Some PNone" using assms by (auto simp: grade_fields_def meta0_def)
  finally show ?thesis .
qed

lemma parse_assign_soup_grade:
  "parse_assign_soup flt soup =
     (case grade_cell (feedback_rows soup) of
        None \<Rightarrow> files_step soup (fold status_row_step (status_table_rows soup)
                    (fold date_row_step (date_rows soup)
                       (fold activity_date_step (activity_date_divs soup) meta0)))
      | Some g \<Rightarrow> store_grade flt g
                   (files_step soup (fold status_row_step (status_table_rows soup)
                      (fold date_row_step (date_rows soup)
                         (fold activity_date_step (activity_date_divs soup) meta0)))))"
  by (simp add: parse_assign_soup_def Let_def grade_loop_cell)

lemma replace_char_set: "set (replace_char a b s) = (set s - {a}) \<union> (if a \<in> set s then set b else {})"
  by (induction s) (auto simp: replace_char_def)

lemma normalize_text_chars:
  "32 \<notin> set (normalize_text t) \<and> 160 \<notin> set (normalize_text t) \<and> 44 \<notin> set (normalize_text t)"
  by (auto simp: normalize_text_def replace_char_set split: if_splits)

text \<open>
  Claim C6. For every page with a grade cell of text \<open>g\<close>, \<open>parse_assign_page\<close> stores
  \<open>g\<close> itself as \<open>grade_text\<close>. When \<open>g\<close> splits at \<open>/\<close> into exactly two parts,
  \<open>grade_raw\<close> and \<open>grade_max\<close> are the floats of the normalized parts (no space,
  no non-breaking space, no comma left), each \<open>None\<close> exactly when \<open>float\<close> fails on
  its own part; otherwise both stay \<open>None\<close>. In particular \<open>"7,00 / 10,00"\<close> gives
  \<open>float("7.00")\<close> and \<open>float("10.00")\<close>, and \<open>"Passed"\<close> gives the text and no numbers.
\<close>

theorem grade_parsing:
  assumes "page url = Some soup" and "grade_cell (feedback_rows soup) = Some g"
  shows "dict_get (parse_assign_page flt page url) ''grade_text'' = PStr g \<and>
         (case split_on 47 g of
            [l, r] \<Rightarrow>
              dict_get (parse_assign_page flt page url) ''grade_raw'' = opt_float (flt (normalize_text l)) \<and>
              dict_get (parse_assign_page flt page url) ''grade_max'' = opt_float (flt (normalize_text r)) \<and>
              32 \<notin> set (normalize_text l) \<and> 160 \<notin> set (normalize_text l) \<and> 44 \<notin> set (normalize_text l) \<and>
              32 \<notin> set (normalize_text r) \<and> 160 \<notin> set (normalize_text r) \<and> 44 \<notin> set (normalize_text r)
          | _ \<Rightarrow>
              dict_get (parse_assign_page flt page url) ''grade_raw'' = PNone \<and>
              dict_get (parse_assign_page flt page url) ''grade_max'' = PNone) \<and>
         (g = ascii ''7,00 / 10,00'' \<longrightarrow>
            dict_get (parse_assign_page flt page url) ''grade_raw'' = opt_float (flt (ascii ''7.00'')) \<and>
            dict_get (parse_assign_page flt page url) ''grade_max'' = opt_float (flt (ascii ''10.00''))) \<and>
         (g = ascii ''Passed'' \<longrightarrow>
            dict_get (parse_assign_page flt page url) ''grade_text'' = PStr (ascii ''Passed'') \<and>
            dict_get (parse_assign_page flt page url) ''grade_raw'' = PNone \<and>
            dict_get (parse_assign_page flt page url) ''grade_max'' = PNone)"
proof -
  define m4 :: "'a meta" where "m4 = files_step soup (fold status_row_step (status_table_rows soup)
      (fold date_row_step (date_rows soup) (fold activity_date_step (activity_date_divs soup) meta0)))"
  have M: "parse_assign_page flt page url = store_grade flt g m4"
    using assms by (simp add: parse_assign_page_def parse_assign_soup_grade m4_def)
  have raw: "m4 ''grade_raw'' = Some PNone" and mx: "m4 ''grade_max'' = Some PNone"
    unfolding m4_def by (rule before_grade, simp add: grade_fields_def)+
  have gtext: "dict_get (store_grade flt g m4) ''grade_text'' = PStr g"
    by (auto simp: store_grade_def dict_get_def split: list.splits)
  have gen: "(case split_on 47 g of
            [l, r] \<Rightarrow>
              dict_get (store_grade flt g m4) ''grade_raw'' = opt_float (flt (normalize_text l)) \<and>
              dict_get (store_grade flt g m4) ''grade_max'' = opt_float (flt (normalize_text r)) \<and>
              32 \<notin> set (normalize_text l) \<and> 160 \<notin> set (normalize_text l) \<and> 44 \<notin> set (normalize_text l) \<and>
              32 \<notin> set (normalize_text r) \<and> 160 \<notin> set (normalize_text r) \<and> 44 \<notin> set (normalize_text r)
          | _ \<Rightarrow>
              dict_get (store_grade flt g m4) ''grade_raw'' = PNone \<and>
              dict_get (store_grade flt g m4) ''grade_max'' = PNone)"
    using raw mx normalize_text_chars
    by (auto simp: store_grade_def dict_get_def normalize_number_def split: list.splits)
  have s1: "split_on 47 (ascii ''7,00 / 10,00'') = [ascii ''7,00 '', ascii '' 10,00'']"
    by (simp add: ascii_def)
  have n1: "normalize_text (ascii ''7,00 '') = ascii ''7.00''"
    and n2: "normalize_text (ascii '' 10,00'') = ascii ''10.00''"
    by (simp_all add: normalize_text_def replace_char_def str_defs)
  have s2: "split_on 47 (ascii ''Passed'') = [ascii ''Passed'']"
    by (simp add: ascii_def)
  have e1: "g = ascii ''7,00 / 10,00'' \<longrightarrow>
            dict_get (store_grade flt g m4) ''grade_raw'' = opt_float (flt (ascii ''7.00'')) \<and>
            dict_get (store_grade flt g m4) ''grade_max'' = opt_float (flt (ascii ''10.00''))"
    using gen s1 n1 n2 by auto
  have e2: "g = ascii ''Passed'' \<longrightarrow>
            dict_get (store_grade flt g m4) ''grade_text'' = PStr (ascii ''Passed'') \<and>
            dict_get (store_grade flt g m4) ''grade_raw'' = PNone \<and>
            dict_get (store_grade flt g m4) ''grade_max'' = PNone"
    using gen s2 gtext by auto
  show ?thesis unfolding M using gtext gen e1 e2 by blast
qed

lemma graded_page_cell: "grade_cell (feedback_rows graded_page) = Some (ascii ''7,00 / 10,00'')"
  by (simp add: graded_page_def feedback_rows_def str_defs dom_defs lbl_defs)

lemma serves_self: "serves u soup (ascii u) = Some soup"
  by (simp add: serves_def)

lemma dec_float_examples: "dec_float (ascii ''7.00'') = Some 7" "dec_float (ascii ''10.00'') = Some 10"
  by (simp_all add: dec_float_def unsigned_float_def digits_value_def is_digit_def ascii_def)

text \<open>The example page, with the decimal literals read as rationals.\<close>

theorem grade_parsing_witness:
  "serves ''https://moodle.example/a'' graded_page (ascii ''https://moodle.example/a'') = Some graded_page \<and>
   grade_cell (feedback_rows graded_page) = Some (ascii ''7,00 / 10,00'') \<and>
   dict_get (parse_assign_page dec_float (serves ''https://moodle.example/a'' graded_page)
     (ascii ''https://moodle.example/a'')) ''grade_text'' = PStr (ascii ''7,00 / 10,00'') \<and>
   dict_get (parse_assign_page dec_float (serves ''https://moodle.example/a'' graded_page)
     (ascii ''https://moodle.example/a'')) ''grade_raw'' = PFloat 7 \<and>
   dict_get (parse_assign_page dec_float (serves ''https://moodle.example/a'' graded_page)
     (ascii ''https://moodle.example/a'')) ''grade_max'' = PFloat 10"
  using grade_parsing[of "serves ''https://moodle.example/a'' graded_page"
      "ascii ''https://moodle.example/a''" graded_page "ascii ''7,00 / 10,00''" dec_float]
    serves_self[of "''https://moodle.example/a''" graded_page] graded_page_cell dec_float_examples
  by (simp add: opt_float_def)


text \<open>A grade that is no fraction: the text is kept and no number is derived.\<close>

lemma passed_page_grade:
  "parse_assign_soup dec_float passed_page ''grade_text'' = Some (PStr (ascii ''Passed''))"
  "parse_assign_soup dec_float passed_page ''grade_raw'' = Some PNone"
  "parse_assign_soup dec_float passed_page ''grade_max'' = Some PNone"
  by (simp_all add: passed_page_def assign_defs str_defs dom_defs lbl_defs)


section \<open>First and last writers\<close>

lemma status_row_step_write:
  "status_row_step r m = (case status_write r of None \<Rightarrow> m | Some (k, v) \<Rightarrow> m(k \<mapsto> PStr v))"
  by (simp add: status_row_step_def status_write_def split: option.splits)

lemma fold_status_last:
  "fold status_row_step rs m k =
     (case last_write k rs of None \<Rightarrow> m k | Some v \<Rightarrow> Some (PStr v))"
proof (induction rs arbitrary: m)
  case Nil
  show ?case by simp
next
  case (Cons r rs)
  show ?case
    using Cons.IH[of "status_row_step r m"]
    by (auto simp: status_row_step_write split: option.splits)
qed

lemma before_status:
  assumes "k \<in> status_fields"
  shows "fold date_row_step ys (fold activity_date_step zs meta0) k = Some PNone"
proof -
  have k: "k \<notin> {''start_at'', ''due_at''}" "k \<notin> date_fields"
    using assms by (auto simp: status_fields_def date_fields_def)
  have "fold date_row_step ys (fold activity_date_step zs meta0) k = meta0 k"
    using k by (simp add: fold_keeps date_row_step_other activity_date_step_other)
  also have "\<dots> = Some PNone" using assms by (auto simp: status_fields_def meta0_def)
  finally show ?thesis .
qed

lemma status_field_last_writer:
  assumes "k \<in> status_fields"
  shows "parse_assign_soup flt soup k =
           (case last_write k (status_table_rows soup) of
              None \<Rightarrow> Some PNone
            | Some v \<Rightarrow> Some (PStr v))"
proof -
  have k: "k \<noteq> ''files''" "k \<notin> {''grade_text'', ''grade_raw'', ''grade_max''}"
    using assms by (auto simp: status_fields_def)
  have "parse_assign_soup flt soup k =
          fold status_row_step (status_table_rows soup)
            (fold date_row_step (date_rows soup)
               (fold activity_date_step (activity_date_divs soup) meta0)) k"
    using k by (simp add: parse_assign_soup_def Let_def grade_loop_keeps files_step_keeps)
  then show ?thesis
    using before_status[OF assms] by (simp add: fold_status_last split: option.splits)
qed

text \<open>
  Claim C1, as amended. The fields \<open>start_at\<close>, \<open>due_at\<close> and \<open>cutoff_at\<close> are
  first-writer-wins: for every assignment page, once one of them holds a string
  after some prefix of the writes of \<open>parse_assign_page\<close> (the children of the
  activity-dates block, the rows of the dates block and of the status table,
  the status fields, the files, the grade), it holds that string in the result.
  The fields \<open>attempt\<close>, \<open>submission_status\<close>, \<open>grading_status\<close>, \<open>time_remaining\<close>
  and \<open>last_modified\<close> are written by the rows of the status table only, and
  each holds the value of the last row that writes it.
\<close>

theorem first_writer_dates_last_writer_status:
  "(k \<in> date_fields \<and> writers flt soup = ws1 @ ws2 \<and> run_writers ws1 meta0 k = Some (PStr v) \<longrightarrow>
      parse_assign_soup flt soup k = Some (PStr v)) \<and>
   (k \<in> status_fields \<longrightarrow>
      parse_assign_soup flt soup k =
        (case last_write k (status_table_rows soup) of
           None \<Rightarrow> Some PNone
         | Some v \<Rightarrow> Some (PStr v)))"
proof -
  have "parse_assign_soup flt soup k = Some (PStr v)"
    if "k \<in> date_fields" "writers flt soup = ws1 @ ws2" "run_writers ws1 meta0 k = Some (PStr v)"
  proof -
    have "set ws2 \<subseteq> set (writers flt soup)" using that(2) by simp
    then have "run_writers ws2 (run_writers ws1 meta0) k = Some (PStr v)"
      using that(1,3) by (rule run_writers_keeps)
    then show ?thesis
      by (simp add: parse_assign_soup_writers that(2) run_writers_append)
  qed
  then show ?thesis using status_field_last_writer by blast
qed

lemma graded_page_first_due:
  "run_writers (take 1 (writers dec_float graded_page)) meta0 ''due_at'' =
     Some (PStr (ascii ''Due date: Monday 9:00''))"
  by (simp add: graded_page_def assign_defs str_defs dom_defs lbl_defs)

lemma two_attempts_last:
  "last_write ''attempt'' (status_table_rows two_attempts_page) = Some (ascii ''2'')"
  by (simp add: two_attempts_page_def status_table_rows_def status_write_def str_defs dom_defs
      lbl_defs)

text \<open>
  On the first example page the first row of the dates block sets \<open>due_at\<close>, and
  the second row, which matches too, does not change it. On the second page the
  second of two rows for the attempt number gives the value.
\<close>

theorem first_writer_dates_last_writer_status_witness:
  "''due_at'' \<in> date_fields \<and>
   writers dec_float graded_page =
     take 1 (writers dec_float graded_page) @ drop 1 (writers dec_float graded_page) \<and>
   run_writers (take 1 (writers dec_float graded_page)) meta0 ''due_at'' =
     Some (PStr (ascii ''Due date: Monday 9:00'')) \<and>
   parse_assign_soup dec_float graded_page ''due_at'' =
     Some (PStr (ascii ''Due date: Monday 9:00'')) \<and>
   ''attempt'' \<in> status_fields \<and>
   parse_assign_soup dec_float two_attempts_page ''attempt'' = Some (PStr (ascii ''2''))"
proof -
  have a: "''due_at'' \<in> date_fields" by (simp add: date_fields_def)
  have b: "writers dec_float graded_page =
     take 1 (writers dec_float graded_page) @ drop 1 (writers dec_float graded_page)"
    by simp
  have c: "''attempt'' \<in> status_fields" by (simp add: status_fields_def)
  have "parse_assign_soup dec_float graded_page ''due_at'' =
     Some (PStr (ascii ''Due date: Monday 9:00''))"
    using first_writer_dates_last_writer_status[of "''due_at''" dec_float graded_page
        "take 1 (writers dec_float graded_page)" "drop 1 (writers dec_float graded_page)"
        "ascii ''Due date: Monday 9:00''"] a b graded_page_first_due
    by blast
  moreover have "parse_assign_soup dec_float two_attempts_page ''attempt'' = Some (PStr (ascii ''2''))"
    using first_writer_dates_last_writer_status[of "''attempt''" dec_float two_attempts_page] c
      two_attempts_last
    by simp
  ultimately show ?thesis using a b c graded_page_first_due by blast
qed

text \<open>
  Claim C1 as stated fails for the status fields: with two rows for the attempt
  number the field holds the value of the first row after that row has been
  read, and the value of the second row in the result.
\<close>

theorem status_field_overwritten:
  "writers dec_float two_attempts_page =
     take 3 (writers dec_float two_attempts_page) @ drop 3 (writers dec_float two_attempts_page) \<and>
   run_writers (take 3 (writers dec_float two_attempts_page)) meta0 ''attempt'' =
     Some (PStr (ascii ''1'')) \<and>
   parse_assign_soup dec_float two_attempts_page ''attempt'' = Some (PStr (ascii ''2''))"
proof -
  have "run_writers (take 3 (writers dec_float two_attempts_page)) meta0 ''attempt'' =
     Some (PStr (ascii ''1''))"
    by (simp add: two_attempts_page_def assign_defs str_defs dom_defs lbl_defs)
  moreover have "parse_assign_soup dec_float two_attempts_page ''attempt'' = Some (PStr (ascii ''2''))"
    by (simp add: two_attempts_page_def assign_defs str_defs dom_defs lbl_defs)
  ultimately show ?thesis by simp
qed

section \<open>Properties of filename_from_content_disposition\<close>

termination unquote_runs
  by (relation "measure length") (auto simp: less_Suc_eq_le length_dropWhile_le)

lemma utf8_step_length: "length (snd (utf8_step b bs)) \<le> length bs"
  unfolding utf8_step_def by (simp split: list.split)

lemma utf8_step_set: "set (snd (utf8_step b bs)) \<subseteq> set bs"
  unfolding utf8_step_def by (auto split: list.split)

termination utf8_decode
  by (relation "measure length") (auto simp: less_Suc_eq_le utf8_step_length)

lemma utf8_step_value: "fst (utf8_step b bs) = Some c \<Longrightarrow> c < 128 \<Longrightarrow> c = b"
  unfolding utf8_step_def
  by (simp split: list.splits if_splits add: is_cont_def second_ok_def)

lemma utf8_decode_ascii: "Some c \<in> set (utf8_decode bs) \<Longrightarrow> c < 128 \<Longrightarrow> c \<in> set bs"
proof (induction bs rule: utf8_decode.induct)
  case 1
  then show ?case by simp
next
  case (2 b bs)
  from "2.prems"(1) consider "fst (utf8_step b bs) = Some c"
    | "Some c \<in> set (utf8_decode (snd (utf8_step b bs)))" by auto
  then show ?case
  proof cases
    case 1
    then show ?thesis using utf8_step_value "2.prems"(2) by auto
  next
    case 2
    then have "c \<in> set (snd (utf8_step b bs))" using "2.IH" "2.prems"(2) by simp
    then show ?thesis using utf8_step_set by auto
  qed
qed


lemma split_on_nonempty: "split_on c s \<noteq> []"
  by (induction s) (auto split: list.splits)

lemma split_on_last_free: "c \<notin> set (last (split_on c s))"
proof (induction s)
  case Nil
  show ?case by simp
next
  case (Cons x xs)
  show ?case
  proof (cases "x = c")
    case True
    then show ?thesis using Cons split_on_nonempty[of c xs] by simp
  next
    case False
    obtain p ps where ps: "split_on c xs = p # ps"
      using split_on_nonempty[of c xs] by (cases "split_on c xs") auto
    show ?thesis using False Cons ps by (cases ps) auto
  qed
qed

lemma split_on_last_sub: "set (last (split_on c s)) \<subseteq> set s"
proof (induction s)
  case Nil
  show ?case by simp
next
  case (Cons x xs)
  show ?case
  proof (cases "x = c")
    case True
    then show ?thesis using Cons split_on_nonempty[of c xs] by auto
  next
    case False
    obtain p ps where ps: "split_on c xs = p # ps"
      using split_on_nonempty[of c xs] by (cases "split_on c xs") auto
    show ?thesis using False Cons ps by (cases ps) auto
  qed
qed

lemma basename_free: "47 \<notin> set (basename f) \<and> 92 \<notin> set (basename f)"
proof -
  have "47 \<notin> set (last (split_on 47 f))" by (rule split_on_last_free)
  then have "47 \<notin> set (basename f)"
    using split_on_last_sub[of 92 "last (split_on 47 f)"] by (auto simp: basename_def)
  moreover have "92 \<notin> set (basename f)"
    unfolding basename_def by (rule split_on_last_free)
  ultimately show ?thesis by simp
qed

lemma decode_strict_ascii:
  assumes "decode_strict bs = Some cs" "c \<in> set cs" "c < 128"
  shows "c \<in> set bs"
proof -
  have n: "None \<notin> set (utf8_decode bs)" and cs: "cs = map the (utf8_decode bs)"
    using assms(1) by (auto simp: decode_strict_def split: if_splits)
  from assms(2) cs obtain v where v: "v \<in> set (utf8_decode bs)" "c = the v" by auto
  have "v \<noteq> None" using v(1) n by metis
  then have "v = Some c" using v(2) by (cases v) simp_all
  then show ?thesis using v(1) assms(3) utf8_decode_ascii by blast
qed

lemma fix_encoding_ascii: "c \<in> set (fix_encoding f) \<Longrightarrow> c < 128 \<Longrightarrow> c \<in> set f"
  using decode_strict_ascii[of f _ c]
  by (auto simp: fix_encoding_def split: if_splits option.splits)

lemma finish_name:
  assumes "finish f = Some n"
  shows "n \<noteq> [] \<and> 47 \<notin> set n \<and> 92 \<notin> set n"
proof -
  have n: "n = fix_encoding (basename f)" "n \<noteq> []"
    using assms by (auto simp: finish_def split: if_splits)
  have "47 \<notin> set n"
    using fix_encoding_ascii[of 47 "basename f"] basename_free[of f] n(1) by auto
  moreover have "92 \<notin> set n"
    using fix_encoding_ascii[of 92 "basename f"] basename_free[of f] n(1) by auto
  ultimately show ?thesis using n(2) by simp
qed

lemma fcd_name:
  assumes "filename_from_content_disposition cd = Some n"
  shows "n \<noteq> [] \<and> 47 \<notin> set n \<and> 92 \<notin> set n"
proof -
  from assms obtain f where "finish f = Some n"
    by (auto simp: filename_from_content_disposition_def split: option.splits if_splits)
  then show ?thesis by (rule finish_name)
qed


lemma takeWhile_until: "c \<notin> set v \<Longrightarrow> takeWhile (\<lambda>x. x \<noteq> c) (v @ c # rest) = v"
  by (induction v) auto

lemma takeWhile_all: "c \<notin> set v \<Longrightarrow> takeWhile (\<lambda>x. x \<noteq> c) v = v"
  by (induction v) auto

lemma dropWhile_until: "c \<notin> set v \<Longrightarrow> dropWhile (\<lambda>x. x \<noteq> c) (v @ c # rest) = c # rest"
  by (induction v) auto

lemma match_quoted_param:
  assumes "name \<noteq> []" "34 \<notin> set name"
  shows "match_quoted (ascii ''filename='' @ [34] @ name @ [34] @ rest) = Some name"
  using assms takeWhile_until[of 34 name rest] dropWhile_until[of 34 name rest]
  by (simp add: match_quoted_def ci_char_def ascii_lower_def ascii_def isspace_def)

lemma match_unquoted_param:
  assumes "v \<noteq> []" "59 \<notin> set v" "\<not> isspace (hd v)"
  shows "match_unquoted (ascii ''filename='' @ v @ [59] @ rest) = Some v"
    and "match_unquoted (ascii ''filename='' @ v) = Some v"
proof -
  have d: "dropWhile isspace (v @ xs) = v @ xs" for xs
    using assms(1,3) by (cases v) simp_all
  show "match_unquoted (ascii ''filename='' @ v @ [59] @ rest) = Some v"
    using assms(1,2) d[of "59 # rest"] takeWhile_until[of 59 v rest]
    by (simp add: match_unquoted_def ci_char_def ascii_lower_def ascii_def isspace_def)
  show "match_unquoted (ascii ''filename='' @ v) = Some v"
    using assms(1) d[of "[]"]
    by (simp add: match_unquoted_def ci_char_def ascii_lower_def ascii_def isspace_def
        takeWhile_all[OF assms(2)])
qed

lemma match_ext_param:
  assumes "v \<noteq> []" "59 \<notin> set v"
  shows "match_ext (ascii ''filename*=UTF-8'' @ [39, 39] @ v @ [59] @ rest) = Some v"
    and "match_ext (ascii ''filename*=UTF-8'' @ [39, 39] @ v) = Some v"
proof -
  show "match_ext (ascii ''filename*=UTF-8'' @ [39, 39] @ v @ [59] @ rest) = Some v"
    using assms takeWhile_until[of 59 v rest]
    by (simp add: match_ext_def ci_char_def ascii_lower_def ascii_def isspace_def)
  show "match_ext (ascii ''filename*=UTF-8'' @ [39, 39] @ v) = Some v"
    using assms(1)
    by (simp add: match_ext_def ci_char_def ascii_lower_def ascii_def isspace_def
        takeWhile_all[OF assms(2)])
qed

lemma split_on_last_suffix: "\<exists>p. s = p @ last (split_on c s) \<and> (p = [] \<or> last p = c)"
proof (induction s)
  case Nil
  show ?case by simp
next
  case (Cons x xs)
  from Cons obtain p where p: "xs = p @ last (split_on c xs)" "p = [] \<or> last p = c" by blast
  obtain q qs where qs: "split_on c xs = q # qs"
    using split_on_nonempty[of c xs] by (cases "split_on c xs") auto
  show ?case
  proof (cases "x = c")
    case True
    have "last (split_on c (x # xs)) = last (split_on c xs)"
      using True qs by simp
    moreover have "x # xs = (x # p) @ last (split_on c xs)" using p(1) by simp
    moreover have "last (x # p) = c" using True p(2) by auto
    ultimately show ?thesis by (metis list.distinct(1))
  next
    case False
    show ?thesis
    proof (cases qs)
      case Nil
      then have l: "last (split_on c (x # xs)) = x # q" "last (split_on c xs) = q"
        using False qs by simp_all
      have "c \<notin> set q" using split_on_last_free[of c xs] l(2) by simp
      have "p = []"
      proof (rule ccontr)
        assume "p \<noteq> []"
        then have "last p = c" using p(2) by simp
        then have "c \<in> set xs" using p(1) \<open>p \<noteq> []\<close> by (metis UnCI last_in_set set_append)
        have "length (split_on c xs) > 1" using \<open>c \<in> set xs\<close>
        proof (induction xs)
          case Nil then show ?case by simp
        next
          case (Cons y ys)
          obtain r rs where "split_on c ys = r # rs"
            using split_on_nonempty[of c ys] by (cases "split_on c ys") auto
          then show ?case using Cons by (cases "y = c") auto
        qed
        then show False using qs Nil by simp
      qed
      then have "x # xs = [] @ last (split_on c (x # xs))" using p(1) l by simp
      then show ?thesis by blast
    next
      case (Cons q' qs')
      then have "last (split_on c (x # xs)) = last (split_on c xs)"
        using False qs by simp
      moreover have "x # xs = (x # p) @ last (split_on c xs)" using p(1) by simp
      moreover have "p \<noteq> []"
      proof
        assume "p = []"
        then have "xs = last (split_on c xs)" using p(1) by simp
        then have "c \<notin> set xs" using split_on_last_free[of c xs] by simp
        then have "split_on c xs = [xs]"
        proof (induction xs)
          case Nil then show ?case by simp
        next
          case (Cons y ys)
          then show ?case by auto
        qed
        then show False using qs Cons by simp
      qed
      then have "last (x # p) = c" using p(2) by simp
      ultimately show ?thesis by (metis list.distinct(1))
    qed
  qed
qed

lemma basename_suffix:
  "\<exists>p. f = p @ basename f \<and> (p = [] \<or> last p = 47 \<or> last p = 92)"
proof -
  obtain p1 where p1: "f = p1 @ last (split_on 47 f)" "p1 = [] \<or> last p1 = 47"
    using split_on_last_suffix[of f 47] by blast
  obtain p2 where p2: "last (split_on 47 f) = p2 @ basename f" "p2 = [] \<or> last p2 = 92"
    using split_on_last_suffix[of "last (split_on 47 f)" 92] unfolding basename_def by blast
  have "f = (p1 @ p2) @ basename f" using p1(1) p2(1) by simp
  moreover have "p1 @ p2 = [] \<or> last (p1 @ p2) = 47 \<or> last (p1 @ p2) = 92"
    using p1(2) p2(2) by (cases "p2 = []") auto
  ultimately show ?thesis by blast
qed


lemmas filename_defs = filename_from_content_disposition_def match_ext_def match_quoted_def
  match_unquoted_def ci_char_def ascii_lower_def unquote_def decode_replace_def utf8_step_def
  is_cont_def second_ok_def is_hex_def hex_value_def finish_def basename_def fix_encoding_def
  artifacts_def strip_chars_def

lemma fcd_extended:
  "filename_from_content_disposition (Some param_extended) = Some (ascii ''lecture 1.pdf'')"
  "filename_from_content_disposition (Some (ascii ''attachment; '' @ param_extended)) =
     Some (ascii ''lecture 1.pdf'')"
  by (simp_all add: param_extended_def filename_defs str_defs)

lemma fcd_quoted:
  "filename_from_content_disposition (Some param_quoted) = Some (ascii ''report.docx'')"
  "filename_from_content_disposition (Some (ascii ''attachment; '' @ param_quoted)) =
     Some (ascii ''report.docx'')"
  by (simp_all add: param_quoted_def filename_defs str_defs)

lemma fcd_both:
  "filename_from_content_disposition (Some header_both) =
     Some (ascii ''na'' @ [239] @ ascii ''ve file.txt'')"
  by (simp add: header_both_def filename_defs str_defs)

lemma fcd_unparseable:
  "filename_from_content_disposition (Some (ascii ''inline'')) = None"
  by (simp add: filename_defs str_defs)

lemma header_both_ext:
  "re_search match_ext (strip header_both) = Some (ascii ''dir%2Fna%C3%AFve%20file.txt'')"
  by (simp add: header_both_def filename_defs str_defs)

lemma fcd_quoted_path:
  "re_search match_ext (strip header_quoted_path) = None"
  "re_search match_quoted (strip header_quoted_path) =
     Some (ascii ''C:'' @ [92] @ ascii ''docs'' @ [92] @ ascii ''year;1'' @ [92] @ ascii ''report.docx'')"
  "filename_from_content_disposition (Some header_quoted_path) = Some (ascii ''report.docx'')"
  by (simp_all add: header_quoted_path_def filename_defs str_defs)

lemma fcd_unquoted:
  "re_search match_ext (strip header_unquoted) = None"
  "re_search match_quoted (strip header_unquoted) = None"
  "re_search match_unquoted (strip header_unquoted) = Some (ascii ''notes v2.txt'')"
  "filename_from_content_disposition (Some header_unquoted) = Some (ascii ''notes v2.txt'')"
  by (simp_all add: header_unquoted_def filename_defs str_defs)

lemma fcd_unquoted_path:
  "filename_from_content_disposition (Some header_unquoted_path) = Some (ascii ''c.txt'')"
  by (simp add: header_unquoted_path_def filename_defs str_defs)

text \<open>
  Claim C7. \<open>filename_from_content_disposition\<close> returns \<open>None\<close> for an absent or
  empty header. Otherwise it takes the name from the extended form
  \<open>filename*=UTF-8''...\<close> (percent-decoded) whenever the stripped header has one, else
  from the quoted form \<open>filename="..."\<close>, else from the unquoted form
  \<open>filename=...\<close>, and returns \<open>None\<close> when the header has none of them. The
  extended and the unquoted form give the text up to the next \<open>;\<close>, the quoted form
  the text between the quotes. The name is cut to what follows its last \<open>/\<close> or
  \<open>\\<close>, so every name returned is non-empty and contains neither of them. When
  the function returns \<open>None\<close> the caller uses the default name taken from the URL.
  The extended parameter for \<open>lecture%201.pdf\<close> gives \<open>lecture 1.pdf\<close>, the quoted
  parameter for \<open>report.docx\<close> gives \<open>report.docx\<close>, in a header with both forms
  the extended one wins, a quoted Windows path with a \<open>;\<close> in it gives its last
  component, and an unquoted name ends at the \<open>;\<close>.
\<close>

theorem content_disposition_filename:
  "filename_from_content_disposition None = None \<and>
   filename_from_content_disposition (Some []) = None \<and>
   (\<forall>g. h \<noteq> [] \<and> re_search match_ext (strip h) = Some g \<longrightarrow>
        filename_from_content_disposition (Some h) = finish (unquote g)) \<and>
   (\<forall>g. h \<noteq> [] \<and> re_search match_ext (strip h) = None \<and>
        re_search match_quoted (strip h) = Some g \<longrightarrow>
        filename_from_content_disposition (Some h) = finish (strip_chars [34] (strip g))) \<and>
   (\<forall>g. h \<noteq> [] \<and> re_search match_ext (strip h) = None \<and>
        re_search match_quoted (strip h) = None \<and> re_search match_unquoted (strip h) = Some g \<longrightarrow>
        filename_from_content_disposition (Some h) = finish (strip_chars [34] (strip g))) \<and>
   (re_search match_ext (strip h) = None \<and> re_search match_quoted (strip h) = None \<and>
    re_search match_unquoted (strip h) = None \<longrightarrow>
        filename_from_content_disposition (Some h) = None) \<and>
   (\<forall>n. filename_from_content_disposition cd = Some n \<longrightarrow> n \<noteq> [] \<and> 47 \<notin> set n \<and> 92 \<notin> set n) \<and>
   (filename_from_content_disposition cd = None \<and> default_name \<noteq> [] \<longrightarrow>
        choose_filename cd default_name = default_name) \<and>
   filename_from_content_disposition (Some param_extended) = Some (ascii ''lecture 1.pdf'') \<and>
   filename_from_content_disposition (Some (ascii ''attachment; '' @ param_extended)) =
     Some (ascii ''lecture 1.pdf'') \<and>
   filename_from_content_disposition (Some param_quoted) = Some (ascii ''report.docx'') \<and>
   filename_from_content_disposition (Some (ascii ''attachment; '' @ param_quoted)) =
     Some (ascii ''report.docx'') \<and>
   filename_from_content_disposition (Some header_both) =
     Some (ascii ''na'' @ [239] @ ascii ''ve file.txt'') \<and>
   (\<forall>rest. v \<noteq> [] \<and> 59 \<notin> set v \<longrightarrow>
        match_ext (ascii ''filename*=UTF-8'' @ [39, 39] @ v @ [59] @ rest) = Some v \<and>
        match_ext (ascii ''filename*=UTF-8'' @ [39, 39] @ v) = Some v) \<and>
   (\<forall>rest. v \<noteq> [] \<and> 34 \<notin> set v \<longrightarrow>
        match_quoted (ascii ''filename='' @ [34] @ v @ [34] @ rest) = Some v) \<and>
   (\<forall>rest. v \<noteq> [] \<and> 59 \<notin> set v \<and> \<not> isspace (hd v) \<longrightarrow>
        match_unquoted (ascii ''filename='' @ v @ [59] @ rest) = Some v \<and>
        match_unquoted (ascii ''filename='' @ v) = Some v) \<and>
   (\<exists>p. f = p @ basename f \<and> (p = [] \<or> last p = 47 \<or> last p = 92)) \<and>
   47 \<notin> set (basename f) \<and> 92 \<notin> set (basename f) \<and>
   filename_from_content_disposition (Some header_quoted_path) = Some (ascii ''report.docx'') \<and>
   filename_from_content_disposition (Some header_unquoted) = Some (ascii ''notes v2.txt'') \<and>
   filename_from_content_disposition (Some header_unquoted_path) = Some (ascii ''c.txt'')"
proof -
  have a: "filename_from_content_disposition None = None"
    "filename_from_content_disposition (Some []) = None"
    by (simp_all add: filename_from_content_disposition_def)
  have b: "\<forall>g. h \<noteq> [] \<and> re_search match_ext (strip h) = Some g \<longrightarrow>
        filename_from_content_disposition (Some h) = finish (unquote g)"
    by (simp add: filename_from_content_disposition_def)
  have c: "\<forall>g. h \<noteq> [] \<and> re_search match_ext (strip h) = None \<and>
        re_search match_quoted (strip h) = Some g \<longrightarrow>
        filename_from_content_disposition (Some h) = finish (strip_chars [34] (strip g))"
    by (simp add: filename_from_content_disposition_def)
  have d: "\<forall>g. h \<noteq> [] \<and> re_search match_ext (strip h) = None \<and>
        re_search match_quoted (strip h) = None \<and> re_search match_unquoted (strip h) = Some g \<longrightarrow>
        filename_from_content_disposition (Some h) = finish (strip_chars [34] (strip g))"
    by (simp add: filename_from_content_disposition_def)
  have e: "re_search match_ext (strip h) = None \<and> re_search match_quoted (strip h) = None \<and>
    re_search match_unquoted (strip h) = None \<longrightarrow>
        filename_from_content_disposition (Some h) = None"
    by (simp add: filename_from_content_disposition_def)
  have f: "\<forall>n. filename_from_content_disposition cd = Some n \<longrightarrow>
      n \<noteq> [] \<and> 47 \<notin> set n \<and> 92 \<notin> set n"
    using fcd_name by blast
  have g: "filename_from_content_disposition cd = None \<and> default_name \<noteq> [] \<longrightarrow>
        choose_filename cd default_name = default_name"
    by (simp add: choose_filename_def)
  have m1: "\<forall>rest. v \<noteq> [] \<and> 59 \<notin> set v \<longrightarrow>
        match_ext (ascii ''filename*=UTF-8'' @ [39, 39] @ v @ [59] @ rest) = Some v \<and>
        match_ext (ascii ''filename*=UTF-8'' @ [39, 39] @ v) = Some v"
    using match_ext_param by blast
  have m2: "\<forall>rest. v \<noteq> [] \<and> 34 \<notin> set v \<longrightarrow>
        match_quoted (ascii ''filename='' @ [34] @ v @ [34] @ rest) = Some v"
    using match_quoted_param by blast
  have m3: "\<forall>rest. v \<noteq> [] \<and> 59 \<notin> set v \<and> \<not> isspace (hd v) \<longrightarrow>
        match_unquoted (ascii ''filename='' @ v @ [59] @ rest) = Some v \<and>
        match_unquoted (ascii ''filename='' @ v) = Some v"
    using match_unquoted_param by blast
  have bn1: "\<exists>p. f = p @ basename f \<and> (p = [] \<or> last p = 47 \<or> last p = 92)"
    by (rule basename_suffix)
  have bn2: "47 \<notin> set (basename f)" and bn3: "92 \<notin> set (basename f)"
    using basename_free[of f] by simp_all
  note parts = a(1) a(2) b c d e f g fcd_extended(1) fcd_extended(2) fcd_quoted(1) fcd_quoted(2)
    fcd_both m1 m2 m3 bn1 bn2 bn3 fcd_quoted_path(3) fcd_unquoted(4) fcd_unquoted_path
  show ?thesis
    by (intro conjI) (rule parts)+
qed

text \<open>
  The theorem at the header with both forms, at the quoted header and at the
  unquoted header, and at a header without a file name with a default name from
  the URL.
\<close>

theorem content_disposition_filename_witness:
  "header_both \<noteq> [] \<and>
   re_search match_ext (strip header_both) = Some (ascii ''dir%2Fna%C3%AFve%20file.txt'') \<and>
   filename_from_content_disposition (Some header_both) =
     finish (unquote (ascii ''dir%2Fna%C3%AFve%20file.txt'')) \<and>
   re_search match_quoted (strip header_quoted_path) =
     Some (ascii ''C:'' @ [92] @ ascii ''docs'' @ [92] @ ascii ''year;1'' @ [92] @ ascii ''report.docx'') \<and>
   filename_from_content_disposition (Some header_quoted_path) =
     finish (strip_chars [34] (strip
       (ascii ''C:'' @ [92] @ ascii ''docs'' @ [92] @ ascii ''year;1'' @ [92] @ ascii ''report.docx''))) \<and>
   re_search match_unquoted (strip header_unquoted) = Some (ascii ''notes v2.txt'') \<and>
   filename_from_content_disposition (Some header_unquoted) =
     finish (strip_chars [34] (strip (ascii ''notes v2.txt''))) \<and>
   filename_from_content_disposition (Some (ascii ''inline'')) = None \<and>
   choose_filename (Some (ascii ''inline'')) (ascii ''notes.pdf'') = ascii ''notes.pdf''"
proof -
  have 1: "header_both \<noteq> []" "header_quoted_path \<noteq> []" "header_unquoted \<noteq> []"
    by (simp_all add: header_both_def header_quoted_path_def header_unquoted_def ascii_def)
  have 2: "ascii ''notes.pdf'' \<noteq> []" by (simp add: ascii_def)
  have "\<forall>g. header_both \<noteq> [] \<and> re_search match_ext (strip header_both) = Some g \<longrightarrow>
        filename_from_content_disposition (Some header_both) = finish (unquote g)"
    by (rule content_disposition_filename[of header_both, THEN conjunct2, THEN conjunct2, THEN conjunct1])
  then have x: "filename_from_content_disposition (Some header_both) =
     finish (unquote (ascii ''dir%2Fna%C3%AFve%20file.txt''))"
    using 1(1) header_both_ext by simp
  have "filename_from_content_disposition (Some (ascii ''inline'')) = None \<and>
        ascii ''notes.pdf'' \<noteq> [] \<longrightarrow>
        choose_filename (Some (ascii ''inline'')) (ascii ''notes.pdf'') = ascii ''notes.pdf''"
    by (rule content_disposition_filename[of _ "Some (ascii ''inline'')" "ascii ''notes.pdf''",
          THEN conjunct2, THEN conjunct2, THEN conjunct2, THEN conjunct2, THEN conjunct2, THEN conjunct2, THEN conjunct2, THEN conjunct1])
  then have w: "choose_filename (Some (ascii ''inline'')) (ascii ''notes.pdf'') = ascii ''notes.pdf''"
    using 2 fcd_unparseable by simp
  have "\<forall>g. header_quoted_path \<noteq> [] \<and> re_search match_ext (strip header_quoted_path) = None \<and>
        re_search match_quoted (strip header_quoted_path) = Some g \<longrightarrow>
        filename_from_content_disposition (Some header_quoted_path) =
          finish (strip_chars [34] (strip g))"
    by (rule content_disposition_filename[of header_quoted_path, THEN conjunct2, THEN conjunct2, THEN conjunct2, THEN conjunct1])
  then have y: "filename_from_content_disposition (Some header_quoted_path) =
     finish (strip_chars [34] (strip
       (ascii ''C:'' @ [92] @ ascii ''docs'' @ [92] @ ascii ''year;1'' @ [92] @ ascii ''report.docx'')))"
    using 1(2) fcd_quoted_path(1,2) by simp
  have "\<forall>g. header_unquoted \<noteq> [] \<and> re_search match_ext (strip header_unquoted) = None \<and>
        re_search match_quoted (strip header_unquoted) = None \<and>
        re_search match_unquoted (strip header_unquoted) = Some g \<longrightarrow>
        filename_from_content_disposition (Some header_unquoted) =
          finish (strip_chars [34] (strip g))"
    by (rule content_disposition_filename[of header_unquoted, THEN conjunct2, THEN conjunct2, THEN conjunct2, THEN conjunct2, THEN conjunct1])
  then have z: "filename_from_content_disposition (Some header_unquoted) =
     finish (strip_chars [34] (strip (ascii ''notes v2.txt'')))"
    using 1(3) fcd_unquoted(1,2,3) by simp
  note parts = 1(1) header_both_ext x fcd_quoted_path(2) y fcd_unquoted(3) z fcd_unparseable w
  show ?thesis
    by (intro conjI) (rule parts)+
qed

end
